theory Spec2Isabelle
  imports Main "HOL-Library.AList" "HOL-Library.Sublist" "HOL-Library.Multiset"
begin

section \<open>The gateway runtime: data model\<close>

text \<open>
  The model follows \<open>ServeMux\<close> of package \<open>runtime\<close>. A request is served by one call
  of \<open>ServeHTTP\<close>; everything that call does to the outside (a middleware it invokes, a
  connection it asks a handler for, a closer it runs, the schema library, the request
  reader, the execution engine, the response writer) is recorded, in order, as an event.
  The model of \<open>ServeHTTP\<close> returns that list of events.

  Go's \<open>error\<close> interface: a value is either a \<open>*MiddlewareError\<close> (the type assertion
  \<open>err.(*MiddlewareError)\<close> succeeds, and gives its \<open>Code\<close> and \<open>Message\<close>) or any other
  error, of which only the text of \<open>Error()\<close> is used. A typed nil pointer in the interface
  is not modelled. The types \<open>MiddlewareError\<close>, \<open>GraphqlError\<close> and the decoded request
  are declared in files of package \<open>runtime\<close> other than the one modelled; their fields
  here are the ones \<open>ServeHTTP\<close> reads and writes.
\<close>

datatype error = MiddlewareError string string | GoError string

text \<open>\<open>GraphqlError\<close>: the error envelope; \<open>Extensions\<close> is a Go map, here its entries.\<close>

record GraphqlError =
  Message :: string
  Extensions :: "(string \<times> string) list"

text \<open>\<open>graphql.Result\<close>; \<open>'v\<close> stands for \<open>interface{}\<close> values.\<close>

record 'v Result =
  Data :: "'v option"
  Errors :: "GraphqlError list"

text \<open>
  \<open>graphql.Fields\<close> is \<open>map[string]*Field\<close>. A Go map is modelled by the list of its
  entries (keys distinct); the field itself, \<open>'f\<close>, is opaque.
\<close>

type_synonym 'f Fields = "(string \<times> 'f) list"

record 'f ObjectConfig =
  Name :: string
  Fields :: "'f Fields"

record 'f SchemaConfig =
  Query :: "'f ObjectConfig option"
  Mutation :: "'f ObjectConfig option"

text \<open>The part of \<open>http.Request\<close> the gateway reads; \<open>'c\<close> is \<open>context.Context\<close>.\<close>

record 'c Request =
  r_Context :: 'c
  r_Body :: string

text \<open>The decoded request \<open>{query, variables}\<close> returned by \<open>parseRequest\<close>.\<close>

record 'v GraphqlRequest =
  req_Query :: string
  req_Variables :: "(string \<times> 'v) list"

record ('c, 's, 'v) Params =
  Schema :: 's
  RequestString :: string
  VariableValues :: "(string \<times> 'v) list"
  Context :: 'c

text \<open>
  \<open>MiddlewareFunc\<close> returns a context and an error; \<open>GraphQLMiddlewareFunc\<close> an error
  (\<open>None\<close> is \<open>nil\<close>). What a middleware itself does with the response writer it is handed
  is not part of \<open>ServeMux\<close> and is not recorded.
\<close>

type_synonym 'c MiddlewareFunc = "'c \<Rightarrow> 'c Request \<Rightarrow> 'c \<times> error option"

type_synonym 'c GraphQLMiddlewareFunc = "'c \<Rightarrow> 'c Request \<Rightarrow> string \<Rightarrow> error option"

text \<open>
  The interface \<open>GraphqlHandler\<close>. \<open>'n option\<close> is \<open>*grpc.ClientConn\<close> (\<open>None\<close> is \<open>nil\<close>).
  \<open>CreateConnection\<close> returns \<open>(conn, closer, err)\<close>: \<open>Inl err\<close> when \<open>err\<close> is not nil,
  else \<open>Inr conn\<close>; the closer it returns with a connection is identified by the position
  of the handler in the registry, and running it is the event \<open>CloserCall\<close>.
\<close>

record ('c, 'n, 'f) GraphqlHandler =
  CreateConnection :: "'c \<Rightarrow> error + 'n option"
  GetMutations :: "'n option \<Rightarrow> 'f Fields"
  GetQueries :: "'n option \<Rightarrow> 'f Fields"

text \<open>
  \<open>ServeMux\<close>. \<open>ErrorHandler\<close> only has effects of its own: it is modelled by a name
  (\<open>None\<close> is \<open>nil\<close>).
\<close>

record ('c, 'n, 'f) ServeMux =
  middlewares :: "'c MiddlewareFunc list"
  graphQLMiddlewares :: "(string \<times> (string \<times> 'c GraphQLMiddlewareFunc) list) list"
  ErrorHandler :: "string option"
  handlers :: "('c, 'n, 'f) GraphqlHandler list"

text \<open>
  What \<open>ServeMux\<close> calls and this file does not define: the order in which the Go runtime
  visits the keys of a map in a \<open>range\<close> loop (any order), \<open>graphql.NewSchema\<close>,
  \<open>graphql.Do\<close>, \<open>json.Marshal\<close>, and, declared in files of package \<open>runtime\<close> other
  than the one modelled, \<open>parseRequest\<close> and the \<open>Error()\<close> method of
  \<open>*MiddlewareError\<close> (of code and message).
\<close>

record ('c, 'f, 's, 'v) env =
  range_order :: "string list \<Rightarrow> string list"
  NewSchema :: "'f SchemaConfig \<Rightarrow> error + 's"
  Do :: "('c, 's, 'v) Params \<Rightarrow> 'v Result"
  json_Marshal :: "'v Result \<Rightarrow> error + string"
  parseRequest :: "'c Request \<Rightarrow> error + 'v GraphqlRequest"
  MiddlewareError_Error :: "string \<Rightarrow> string \<Rightarrow> string"

datatype ('c, 'f, 's, 'v) event =
    MiddlewareCall nat 'c
  | CreateConnectionCall nat 'c
  | CloserCall nat
  | NewSchemaCall "'f SchemaConfig"
  | ParseRequestCall
  | DirectiveCall string string 'c
  | DoCall "('c, 's, 'v) Params"
  | ErrorHandlerCall "string option" "GraphqlError list"
  | RespondResultCall "'v Result"
  | HeaderSet string string
  | WriteHeader nat
  | Write string

section \<open>Library functions\<close>

text \<open>\<open>err.Error()\<close>.\<close>

fun Error :: "('c, 'f, 's, 'v) env \<Rightarrow> error \<Rightarrow> string" where
  "Error env (GoError txt) = txt"
| "Error env (MiddlewareError code msg) = MiddlewareError_Error env code msg"

text \<open>\<open>strings.Contains(s, substr)\<close>: \<open>substr\<close> occurs in \<open>s\<close> as a contiguous block.\<close>

fun Contains :: "string \<Rightarrow> string \<Rightarrow> bool" where
  "Contains [] substr = (substr = [])"
| "Contains (c # s) substr = (prefix substr (c # s) \<or> Contains s substr)"

text \<open>\<open>fmt.Sprint\<close> of a length: its decimal digits.\<close>

definition digit :: "nat \<Rightarrow> char" where
  "digit d = ''0123456789'' ! d"

fun Sprint :: "nat \<Rightarrow> string" where
  "Sprint n = (if n < 10 then [digit n] else Sprint (n div 10) @ [digit (n mod 10)])"

declare Sprint.simps [simp del]

text \<open>
  A \<open>range\<close> loop over a Go map visits every entry once, in the order the runtime picks:
  the keys in that order, each with the value stored under it.
\<close>

definition range_map :: "('c, 'f, 's, 'v) env \<Rightarrow> (string \<times> 'a) list \<Rightarrow> (string \<times> 'a) list" where
  "range_map env m =
     concat (map (\<lambda>k. case map_of m k of None \<Rightarrow> [] | Some v \<Rightarrow> [(k, v)])
                 (range_order env (map fst m)))"

text \<open>\<open>for k, v := range src { dst[k] = v }\<close>\<close>

fun assign_all :: "(string \<times> 'a) list \<Rightarrow> (string \<times> 'a) list \<Rightarrow> (string \<times> 'a) list" where
  "assign_all [] dst = dst"
| "assign_all ((k, v) # kvs) dst = assign_all kvs (AList.update k v dst)"

section \<open>Registration\<close>

definition NewServeMux :: "'c MiddlewareFunc list \<Rightarrow> ('c, 'n, 'f) ServeMux" where
  "NewServeMux ms =
     \<lparr>middlewares = ms, graphQLMiddlewares = [], ErrorHandler = None, handlers = []\<rparr>"

text \<open>The \<open>schemaConfig\<close> both \<open>validateHandler\<close> and \<open>ServeHTTP\<close> build from two field maps.\<close>

definition schemaConfig_of :: "'f Fields \<Rightarrow> 'f Fields \<Rightarrow> 'f SchemaConfig" where
  "schemaConfig_of queries mutations =
     (let schemaConfig = \<lparr>Query = None, Mutation = None\<rparr>;
          schemaConfig = (if length queries > 0
             then schemaConfig\<lparr>Query := Some \<lparr>Name = ''Query'', Fields = queries\<rparr>\<rparr>
             else schemaConfig);
          schemaConfig = (if length mutations > 0
             then schemaConfig\<lparr>Mutation := Some \<lparr>Name = ''Mutation'', Fields = mutations\<rparr>\<rparr>
             else schemaConfig)
      in schemaConfig)"

definition validateHandler ::
  "('c, 'f, 's, 'v) env \<Rightarrow> ('c, 'n, 'f) GraphqlHandler \<Rightarrow> error option" where
  "validateHandler env h =
     (let queries = GetQueries h None;
          mutations = GetMutations h None
      in if length queries = 0 \<and> length mutations = 0 then None
         else (case NewSchema env (schemaConfig_of queries mutations) of
                 Inl err \<Rightarrow> Some (GoError (''Schema validation error: '' @ Error env err))
               | Inr schema \<Rightarrow> None))"

text \<open>\<open>AddHandler\<close> returns the error and the registry as the call leaves it.\<close>

definition AddHandler ::
  "('c, 'f, 's, 'v) env \<Rightarrow> ('c, 'n, 'f) ServeMux \<Rightarrow> ('c, 'n, 'f) GraphqlHandler
     \<Rightarrow> error option \<times> ('c, 'n, 'f) ServeMux" where
  "AddHandler env s h =
     (case validateHandler env h of
        Some err \<Rightarrow> (Some err, s)
      | None \<Rightarrow> (None, s\<lparr>handlers := handlers s @ [h]\<rparr>))"

definition Use :: "('c, 'n, 'f) ServeMux \<Rightarrow> 'c MiddlewareFunc list \<Rightarrow> ('c, 'n, 'f) ServeMux" where
  "Use s ms = s\<lparr>middlewares := middlewares s @ ms\<rparr>"

definition UseDirective ::
  "('c, 'n, 'f) ServeMux \<Rightarrow> string \<Rightarrow> string \<Rightarrow> 'c GraphQLMiddlewareFunc \<Rightarrow> ('c, 'n, 'f) ServeMux" where
  "UseDirective s method directive ms =
     (let directives = (case map_of (graphQLMiddlewares s) method of
                          Some ds \<Rightarrow> ds | None \<Rightarrow> []);
          directives = AList.update directive ms directives
      in s\<lparr>graphQLMiddlewares := AList.update method directives (graphQLMiddlewares s)\<rparr>)"

section \<open>Serving a request\<close>

definition StatusOK :: nat where
  "StatusOK = 200"

definition respondResult :: "('c, 'f, 's, 'v) env \<Rightarrow> 'v Result \<Rightarrow> ('c, 'f, 's, 'v) event list" where
  "respondResult env result =
     (let out = (case json_Marshal env result of Inl err \<Rightarrow> [] | Inr bytes \<Rightarrow> bytes)
      in [RespondResultCall result,
          HeaderSet ''Content-Type'' ''application/json'',
          HeaderSet ''Content-Length'' (Sprint (length out)),
          WriteHeader StatusOK,
          Write out])"

text \<open>\<open>&graphql.Result{Errors: []GraphqlError{ge}}\<close>\<close>

definition error_result :: "GraphqlError \<Rightarrow> 'v Result" where
  "error_result ge = \<lparr>Data = None, Errors = [ge]\<rparr>"

text \<open>
  The envelope of a failed middleware, as both loops of \<open>ServeHTTP\<close> build it; \<open>generic\<close>
  is the code of the branch where the type assertion fails.
\<close>

fun middleware_envelope :: "string \<Rightarrow> error \<Rightarrow> GraphqlError" where
  "middleware_envelope generic (MiddlewareError code msg) =
     \<lparr>Message = msg, Extensions = [(''code'', code)]\<rparr>"
| "middleware_envelope generic (GoError txt) =
     \<lparr>Message = txt, Extensions = [(''code'', generic)]\<rparr>"

text \<open>The loop over \<open>s.middlewares\<close>; \<open>i\<close> is the position of the next middleware.\<close>

fun run_middlewares ::
  "'c MiddlewareFunc list \<Rightarrow> nat \<Rightarrow> 'c \<Rightarrow> 'c Request
     \<Rightarrow> ('c, 'f, 's, 'v) event list \<times> (GraphqlError + 'c)" where
  "run_middlewares [] i ctx r = ([], Inr ctx)"
| "run_middlewares (m # ms) i ctx r =
     (case m ctx r of
        (ctx', Some err) \<Rightarrow>
          ([MiddlewareCall i ctx], Inl (middleware_envelope ''MIDDLEWARE_ERROR'' err))
      | (ctx', None) \<Rightarrow>
          (case run_middlewares ms (Suc i) ctx' r of
             (tr, res) \<Rightarrow> (MiddlewareCall i ctx # tr, res)))"

text \<open>
  The loop over \<open>s.handlers\<close>. It returns the events, the stack of deferred closers (the
  last deferred first) and either the envelope of the failed acquisition or the two
  merged maps.
\<close>

fun connect_handlers ::
  "('c, 'f, 's, 'v) env \<Rightarrow> ('c, 'n, 'f) GraphqlHandler list \<Rightarrow> nat \<Rightarrow> 'c
     \<Rightarrow> 'f Fields \<Rightarrow> 'f Fields
     \<Rightarrow> ('c, 'f, 's, 'v) event list \<times> nat list \<times> (GraphqlError + 'f Fields \<times> 'f Fields)" where
  "connect_handlers env [] i ctx queries mutations = ([], [], Inr (queries, mutations))"
| "connect_handlers env (h # hs) i ctx queries mutations =
     (case CreateConnection h ctx of
        Inl err \<Rightarrow>
          ([CreateConnectionCall i ctx], [],
           Inl \<lparr>Message = ''Failed to create grpc connection: '' @ Error env err,
                Extensions = [(''code'', ''GRPC_CONNECT_ERROR'')]\<rparr>)
      | Inr c \<Rightarrow>
          (case connect_handlers env hs (Suc i) ctx
                  (assign_all (range_map env (GetQueries h c)) queries)
                  (assign_all (range_map env (GetMutations h c)) mutations) of
             (tr, deferred, res) \<Rightarrow> (CreateConnectionCall i ctx # tr, deferred @ [i], res)))"

text \<open>The inner loop \<open>for _, fn := range directives\<close> for one method.\<close>

fun run_fns ::
  "'c \<Rightarrow> 'c Request \<Rightarrow> string \<Rightarrow> (string \<times> 'c GraphQLMiddlewareFunc) list
     \<Rightarrow> ('c, 'f, 's, 'v) event list \<times> GraphqlError option" where
  "run_fns ctx r method [] = ([], None)"
| "run_fns ctx r method ((d, fn) # fns) =
     (case fn ctx r method of
        Some err \<Rightarrow>
          ([DirectiveCall method d ctx],
           Some (middleware_envelope ''DIRECTIVE_MIDDLEWARE_ERROR'' err))
      | None \<Rightarrow>
          (case run_fns ctx r method fns of
             (tr, res) \<Rightarrow> (DirectiveCall method d ctx # tr, res)))"

text \<open>The loop over \<open>methodNames\<close>.\<close>

fun run_directives ::
  "('c, 'f, 's, 'v) env \<Rightarrow> ('c, 'n, 'f) ServeMux \<Rightarrow> 'c \<Rightarrow> 'c Request \<Rightarrow> string
     \<Rightarrow> string list \<Rightarrow> ('c, 'f, 's, 'v) event list \<times> GraphqlError option" where
  "run_directives env s ctx r query [] = ([], None)"
| "run_directives env s ctx r query (method # methods) =
     (if \<not> Contains query method then run_directives env s ctx r query methods
      else (case map_of (graphQLMiddlewares s) method of
              None \<Rightarrow> run_directives env s ctx r query methods
            | Some directives \<Rightarrow>
                (case run_fns ctx r method (range_map env directives) of
                   (tr, Some ge) \<Rightarrow> (tr, Some ge)
                 | (tr, None) \<Rightarrow>
                     (case run_directives env s ctx r query methods of
                        (tr', res) \<Rightarrow> (tr @ tr', res)))))"

definition methodNames :: "('c, 'f, 's, 'v) env \<Rightarrow> 'f Fields \<Rightarrow> 'f Fields \<Rightarrow> string list" where
  "methodNames env queries mutations =
     map fst (range_map env queries) @ map fst (range_map env mutations)"

text \<open>\<open>ServeHTTP\<close> from the construction of \<open>schemaConfig\<close> to its last statement.\<close>

definition serve_schema ::
  "('c, 'f, 's, 'v) env \<Rightarrow> ('c, 'n, 'f) ServeMux \<Rightarrow> 'c Request \<Rightarrow> 'c
     \<Rightarrow> 'f Fields \<Rightarrow> 'f Fields \<Rightarrow> ('c, 'f, 's, 'v) event list" where
  "serve_schema env s r ctx queries mutations =
     (let schemaConfig = schemaConfig_of queries mutations
      in NewSchemaCall schemaConfig #
         (case NewSchema env schemaConfig of
            Inl err \<Rightarrow>
              respondResult env (error_result
                \<lparr>Message = ''Failed to build schema: '' @ Error env err,
                 Extensions = [(''code'', ''SCHEMA_GENERATION_ERROR'')]\<rparr>)
          | Inr schema \<Rightarrow>
              ParseRequestCall #
              (case parseRequest env r of
                 Inl err \<Rightarrow>
                   respondResult env (error_result
                     \<lparr>Message = ''Failed to parse request: '' @ Error env err,
                      Extensions = [(''code'', ''REQUEST_PARSE_ERROR'')]\<rparr>)
               | Inr req \<Rightarrow>
                   (case run_directives env s ctx r (req_Query req)
                           (methodNames env queries mutations) of
                      (tr, Some ge) \<Rightarrow> tr @ respondResult env (error_result ge)
                    | (tr, None) \<Rightarrow>
                        (let params = \<lparr>Schema = schema, RequestString = req_Query req,
                                       VariableValues = req_Variables req, Context = ctx\<rparr>;
                             result = Do env params
                         in tr @ [DoCall params] @
                            (if length (Errors result) > 0
                             then [ErrorHandlerCall (ErrorHandler s) (Errors result)] else []) @
                            respondResult env result)))))"

text \<open>
  \<open>ServeHTTP\<close>. The deferred closers run when the function returns, the last deferred
  first, after whatever the function did before returning.
\<close>

definition ServeHTTP ::
  "('c, 'f, 's, 'v) env \<Rightarrow> ('c, 'n, 'f) ServeMux \<Rightarrow> 'c Request \<Rightarrow> ('c, 'f, 's, 'v) event list" where
  "ServeHTTP env s r =
     (case run_middlewares (middlewares s) 0 (r_Context r) r of
        (tr1, Inl ge) \<Rightarrow> tr1 @ respondResult env (error_result ge)
      | (tr1, Inr ctx) \<Rightarrow>
          (case connect_handlers env (handlers s) 0 ctx [] [] of
             (tr2, deferred, Inl ge) \<Rightarrow>
               tr1 @ tr2 @ respondResult env (error_result ge) @ map CloserCall deferred
           | (tr2, deferred, Inr (queries, mutations)) \<Rightarrow>
               tr1 @ tr2 @ serve_schema env s r ctx queries mutations @ map CloserCall deferred))"

section \<open>Reading the events of a request\<close>

text \<open>The context the \<open>j\<close>-th middleware receives: the one returned by its predecessor.\<close>

definition chain_ctx :: "'c MiddlewareFunc list \<Rightarrow> 'c Request \<Rightarrow> 'c \<Rightarrow> nat \<Rightarrow> 'c" where
  "chain_ctx ms r ctx j = foldl (\<lambda>c m. fst (m c r)) ctx (take j ms)"

text \<open>The context every handler and every directive middleware receives.\<close>

definition final_ctx :: "('c, 'n, 'f) ServeMux \<Rightarrow> 'c Request \<Rightarrow> 'c" where
  "final_ctx s r = chain_ctx (middlewares s) r (r_Context r) (length (middlewares s))"

text \<open>The Go runtime visits every key of a map once, in some order.\<close>

definition range_permutes :: "('c, 'f, 's, 'v) env \<Rightarrow> bool" where
  "range_permutes env = (\<forall>ks. mset (range_order env ks) = mset ks)"

text \<open>The field maps of several handlers, assigned one map after the other.\<close>

fun merge_fields :: "('c, 'f, 's, 'v) env \<Rightarrow> 'a Fields list \<Rightarrow> 'a Fields \<Rightarrow> 'a Fields" where
  "merge_fields env [] dst = dst"
| "merge_fields env (src # srcs) dst = merge_fields env srcs (assign_all (range_map env src) dst)"

text \<open>The field map of a root type of a \<open>schemaConfig\<close>; empty when the root type is absent.\<close>

fun config_fields :: "'f ObjectConfig option \<Rightarrow> 'f Fields" where
  "config_fields None = []"
| "config_fields (Some obj) = Fields obj"

fun is_middleware_call :: "('c, 'f, 's, 'v) event \<Rightarrow> bool" where
  "is_middleware_call (MiddlewareCall i c) = True"
| "is_middleware_call e = False"

fun is_acquisition_of :: "nat \<Rightarrow> ('c, 'f, 's, 'v) event \<Rightarrow> bool" where
  "is_acquisition_of i (CreateConnectionCall j c) = (j = i)"
| "is_acquisition_of i e = False"

fun is_release_of :: "nat \<Rightarrow> ('c, 'f, 's, 'v) event \<Rightarrow> bool" where
  "is_release_of i (CloserCall j) = (j = i)"
| "is_release_of i e = False"

fun is_directive_call :: "string \<Rightarrow> string \<Rightarrow> ('c, 'f, 's, 'v) event \<Rightarrow> bool" where
  "is_directive_call m d (DirectiveCall m' d' c) = (m' = m \<and> d' = d)"
| "is_directive_call m d e = False"

fun is_writer_call :: "('c, 'f, 's, 'v) event \<Rightarrow> bool" where
  "is_writer_call (HeaderSet k v) = True"
| "is_writer_call (WriteHeader code) = True"
| "is_writer_call (Write out) = True"
| "is_writer_call e = False"

text \<open>The results handed to \<open>respondResult\<close>, in order.\<close>

fun responses :: "('c, 'f, 's, 'v) event list \<Rightarrow> 'v Result list" where
  "responses [] = []"
| "responses (RespondResultCall result # tr) = result # responses tr"
| "responses (e # tr) = responses tr"

text \<open>
  The events of the three loops: the first \<open>k\<close> middlewares called in registration order,
  each with the context of its predecessor; the first \<open>k\<close> handlers asked for a connection;
  the closers of the first \<open>k\<close> handlers run, the last acquired first.
\<close>

definition middleware_calls ::
  "('c, 'n, 'f) ServeMux \<Rightarrow> 'c Request \<Rightarrow> nat \<Rightarrow> ('c, 'f, 's, 'v) event list" where
  "middleware_calls s r k =
     map (\<lambda>j. MiddlewareCall j (chain_ctx (middlewares s) r (r_Context r) j)) [0..<k]"

definition connection_calls ::
  "('c, 'n, 'f) ServeMux \<Rightarrow> 'c Request \<Rightarrow> nat \<Rightarrow> ('c, 'f, 's, 'v) event list" where
  "connection_calls s r k = map (\<lambda>j. CreateConnectionCall j (final_ctx s r)) [0..<k]"

definition closer_calls :: "nat \<Rightarrow> ('c, 'f, 's, 'v) event list" where
  "closer_calls k = map CloserCall (rev [0..<k])"

text \<open>The error the \<open>j\<close>-th middleware returns in the chain (\<open>None\<close> is \<open>nil\<close>).\<close>

definition middleware_error :: "('c, 'n, 'f) ServeMux \<Rightarrow> 'c Request \<Rightarrow> nat \<Rightarrow> error option" where
  "middleware_error s r j =
     snd ((middlewares s ! j) (chain_ctx (middlewares s) r (r_Context r) j) r)"

text \<open>
  The merged maps when every handler hands out a connection: the query (mutation) fields
  of the handlers, each listed with the connection of its handler, merged in registration
  order.
\<close>

definition merged_queries ::
  "('c, 'f, 's, 'v) env \<Rightarrow> ('c, 'n, 'f) ServeMux \<Rightarrow> 'c Request \<Rightarrow> 'f Fields" where
  "merged_queries env s r =
     merge_fields env
       (map (\<lambda>h. GetQueries h (projr (CreateConnection h (final_ctx s r)))) (handlers s)) []"

definition merged_mutations ::
  "('c, 'f, 's, 'v) env \<Rightarrow> ('c, 'n, 'f) ServeMux \<Rightarrow> 'c Request \<Rightarrow> 'f Fields" where
  "merged_mutations env s r =
     merge_fields env
       (map (\<lambda>h. GetMutations h (projr (CreateConnection h (final_ctx s r)))) (handlers s)) []"

section \<open>A concrete gateway\<close>

text \<open>
  Contexts count the middlewares passed, connections are numbers, a field is the name of
  its resolver, a schema is its configuration. The runtime visits map keys in reverse
  order; the schema library rejects a configuration without a \<open>Query\<close> root type; the
  request reader rejects an empty body.
\<close>

definition ex_env :: "(nat, string, string SchemaConfig, string) env" where
  "ex_env =
     \<lparr>range_order = rev,
      NewSchema = (\<lambda>cfg. if Query cfg = None
         then Inl (GoError ''Schema query must be Object Type but got: nil.'') else Inr cfg),
      Do = (\<lambda>p. \<lparr>Data = Some (RequestString p), Errors = []\<rparr>),
      json_Marshal = (\<lambda>res. Inr ''{}''),
      parseRequest = (\<lambda>r. if r_Body r = [] then Inl (GoError ''EOF'')
         else Inr \<lparr>req_Query = r_Body r, req_Variables = []\<rparr>),
      MiddlewareError_Error = (\<lambda>code msg. msg)\<rparr>"

definition hello_handler :: "(nat, nat, string) GraphqlHandler" where
  "hello_handler =
     \<lparr>CreateConnection = (\<lambda>ctx. Inr (Some 1)),
      GetMutations = (\<lambda>c. [(''create'', ''hello.create'')]),
      GetQueries = (\<lambda>c. [(''hello'', ''hello.hello'')])\<rparr>"

definition search_handler :: "(nat, nat, string) GraphqlHandler" where
  "search_handler =
     \<lparr>CreateConnection = (\<lambda>ctx. Inr (Some 2)),
      GetMutations = (\<lambda>c. [(''create'', ''search.create'')]),
      GetQueries = (\<lambda>c. [(''search'', ''search.search''), (''hello'', ''search.hello'')])\<rparr>"

definition refused_handler :: "(nat, nat, string) GraphqlHandler" where
  "refused_handler =
     \<lparr>CreateConnection = (\<lambda>ctx. Inl (GoError ''dial refused'')),
      GetMutations = (\<lambda>c. []),
      GetQueries = (\<lambda>c. [(''status'', ''refused.status'')])\<rparr>"

definition ping_handler :: "(nat, nat, string) GraphqlHandler" where
  "ping_handler =
     \<lparr>CreateConnection = (\<lambda>ctx. Inr None),
      GetMutations = (\<lambda>c. [(''ping'', ''ping.mutation'')]),
      GetQueries = (\<lambda>c. [(''ping'', ''ping.query'')])\<rparr>"

definition write_only_handler :: "(nat, nat, string) GraphqlHandler" where
  "write_only_handler =
     \<lparr>CreateConnection = (\<lambda>ctx. Inr None),
      GetMutations = (\<lambda>c. [(''create'', ''write.create'')]),
      GetQueries = (\<lambda>c. [])\<rparr>"

definition empty_handler :: "(nat, nat, string) GraphqlHandler" where
  "empty_handler =
     \<lparr>CreateConnection = (\<lambda>ctx. Inr None),
      GetMutations = (\<lambda>c. []),
      GetQueries = (\<lambda>c. [])\<rparr>"

definition count_middleware :: "nat MiddlewareFunc" where
  "count_middleware ctx r = (Suc ctx, None)"

definition auth_middleware :: "nat MiddlewareFunc" where
  "auth_middleware ctx r = (ctx, Some (MiddlewareError ''UNAUTHORIZED'' ''no token''))"

definition allow_directive :: "nat GraphQLMiddlewareFunc" where
  "allow_directive ctx r method = None"

definition deny_directive :: "nat GraphQLMiddlewareFunc" where
  "deny_directive ctx r method = Some (GoError ''denied'')"

definition ex_mux :: "(nat, nat, string) ServeMux" where
  "ex_mux =
     \<lparr>middlewares = [count_middleware],
      graphQLMiddlewares = [(''search'', [(''auth'', allow_directive)])],
      ErrorHandler = None,
      handlers = [hello_handler, search_handler]\<rparr>"

definition denied_mux :: "(nat, nat, string) ServeMux" where
  "denied_mux =
     \<lparr>middlewares = [count_middleware, auth_middleware, count_middleware],
      graphQLMiddlewares = [],
      ErrorHandler = None,
      handlers = [hello_handler]\<rparr>"

definition refused_mux :: "(nat, nat, string) ServeMux" where
  "refused_mux =
     \<lparr>middlewares = [],
      graphQLMiddlewares = [],
      ErrorHandler = None,
      handlers = [hello_handler, refused_handler, search_handler]\<rparr>"

definition guarded_mux :: "(nat, nat, string) ServeMux" where
  "guarded_mux =
     \<lparr>middlewares = [],
      graphQLMiddlewares = [(''hello'', [(''guard'', deny_directive)])],
      ErrorHandler = None,
      handlers = [hello_handler]\<rparr>"

definition ping_mux :: "(nat, nat, string) ServeMux" where
  "ping_mux =
     \<lparr>middlewares = [],
      graphQLMiddlewares = [(''ping'', [(''log'', allow_directive)])],
      ErrorHandler = None,
      handlers = [ping_handler]\<rparr>"

definition search_request :: "nat Request" where
  "search_request = \<lparr>r_Context = 0, r_Body = ''{ search }''\<rparr>"

definition alias_request :: "nat Request" where
  "alias_request = \<lparr>r_Context = 0, r_Body = ''{ hello }''\<rparr>"

definition ping_request :: "nat Request" where
  "ping_request = \<lparr>r_Context = 0, r_Body = ''{ ping }''\<rparr>"

definition empty_request :: "nat Request" where
  "empty_request = \<lparr>r_Context = 0, r_Body = []\<rparr>"

section \<open>The three loops\<close>

lemma chain_ctx_0 [simp]: "chain_ctx ms r ctx 0 = ctx"
  by (simp add: chain_ctx_def)

lemma chain_ctx_Suc [simp]: "chain_ctx (m # ms) r ctx (Suc j) = chain_ctx ms r (fst (m ctx r)) j"
  by (simp add: chain_ctx_def)

lemma map_upt_Suc0: "map f [0..<Suc k] = f 0 # map (\<lambda>j. f (Suc j)) [0..<k]"
  by (rule map_upt_Suc)

lemma run_middlewares_shape:
  "run_middlewares ms i ctx r = (tr, res) \<Longrightarrow>
   \<exists>k. k \<le> length ms \<and> tr = map (\<lambda>j. MiddlewareCall (i + j) (chain_ctx ms r ctx j)) [0..<k] \<and>
       (\<forall>j. Suc j < k \<longrightarrow> snd ((ms ! j) (chain_ctx ms r ctx j) r) = None) \<and>
       (case res of
          Inr c' \<Rightarrow> k = length ms \<and> c' = chain_ctx ms r ctx k \<and>
                   (\<forall>j<k. snd ((ms ! j) (chain_ctx ms r ctx j) r) = None)
        | Inl ge \<Rightarrow> \<exists>err. 0 < k \<and> snd ((ms ! (k - 1)) (chain_ctx ms r ctx (k - 1)) r) = Some err \<and>
                   ge = middleware_envelope ''MIDDLEWARE_ERROR'' err)"
proof (induction ms arbitrary: i ctx tr res)
  case Nil
  then show ?case by auto
next
  case (Cons m ms)
  obtain ctx' eo where m: "m ctx r = (ctx', eo)" by (cases "m ctx r")
  show ?case
  proof (cases eo)
    case (Some err)
    with Cons.prems m have "tr = [MiddlewareCall i ctx]"
      "res = Inl (middleware_envelope ''MIDDLEWARE_ERROR'' err)" by auto
    with m Some show ?thesis by (intro exI[of _ 1]) auto
  next
    case None
    obtain tr' where run: "run_middlewares ms (Suc i) ctx' r = (tr', res)"
      and tr: "tr = MiddlewareCall i ctx # tr'"
      using Cons.prems m None by (auto split: prod.splits)
    from Cons.IH[OF run] obtain k where k: "k \<le> length ms"
      "tr' = map (\<lambda>j. MiddlewareCall (Suc i + j) (chain_ctx ms r ctx' j)) [0..<k]"
      "\<forall>j. Suc j < k \<longrightarrow> snd ((ms ! j) (chain_ctx ms r ctx' j) r) = None"
      "(case res of
          Inr c' \<Rightarrow> k = length ms \<and> c' = chain_ctx ms r ctx' k \<and>
                   (\<forall>j<k. snd ((ms ! j) (chain_ctx ms r ctx' j) r) = None)
        | Inl ge \<Rightarrow> \<exists>err. 0 < k \<and> snd ((ms ! (k - 1)) (chain_ctx ms r ctx' (k - 1)) r) = Some err \<and>
                   ge = middleware_envelope ''MIDDLEWARE_ERROR'' err)" by blast
    have c': "fst (m ctx r) = ctx'" using m by simp
    have 1: "tr = map (\<lambda>j. MiddlewareCall (i + j) (chain_ctx (m # ms) r ctx j)) [0..<Suc k]"
      unfolding tr k(2) map_upt_Suc0 by (simp add: c')
    have 2: "\<forall>j. Suc j < Suc k \<longrightarrow> snd (((m # ms) ! j) (chain_ctx (m # ms) r ctx j) r) = None"
    proof (intro allI impI)
      fix j assume "Suc j < Suc k"
      then show "snd (((m # ms) ! j) (chain_ctx (m # ms) r ctx j) r) = None"
        using k(3) m None c' by (cases j) auto
    qed
    have 3: "(case res of
          Inr c' \<Rightarrow> Suc k = length (m # ms) \<and> c' = chain_ctx (m # ms) r ctx (Suc k) \<and>
                   (\<forall>j<Suc k. snd (((m # ms) ! j) (chain_ctx (m # ms) r ctx j) r) = None)
        | Inl ge \<Rightarrow> \<exists>err. 0 < Suc k \<and> snd (((m # ms) ! (Suc k - 1)) (chain_ctx (m # ms) r ctx (Suc k - 1)) r) = Some err \<and>
                   ge = middleware_envelope ''MIDDLEWARE_ERROR'' err)"
    proof (cases res)
      case (Inl ge)
      with k(4) obtain err where "0 < k" "snd ((ms ! (k - 1)) (chain_ctx ms r ctx' (k - 1)) r) = Some err"
        "ge = middleware_envelope ''MIDDLEWARE_ERROR'' err" by auto
      then show ?thesis using Inl c' by (cases k) auto
    next
      case (Inr c'')
      with k(4) have a: "k = length ms" "c'' = chain_ctx ms r ctx' k"
        "\<forall>j<k. snd ((ms ! j) (chain_ctx ms r ctx' j) r) = None" by auto
      have "\<forall>j<Suc k. snd (((m # ms) ! j) (chain_ctx (m # ms) r ctx j) r) = None"
      proof (intro allI impI)
        fix j assume "j < Suc k"
        then show "snd (((m # ms) ! j) (chain_ctx (m # ms) r ctx j) r) = None"
          using a(3) m None c' by (cases j) auto
      qed
      then show ?thesis using Inr a c' by simp
    qed
    show ?thesis using k(1) 1 2 3 by (intro exI[of _ "Suc k"]) simp
  qed
qed

lemma upt_add_Suc: "[i..<i + Suc k] = i # [Suc i..<Suc i + k]"
  by (simp add: upt_conv_Cons)

lemma connect_handlers_shape:
  "connect_handlers env hs i ctx q m = (tr, d, res) \<Longrightarrow>
   \<exists>k. k \<le> length hs \<and> tr = map (\<lambda>j. CreateConnectionCall j ctx) [i..<i + k] \<and>
       (\<forall>j. Suc j < k \<longrightarrow> \<not> isl (CreateConnection (hs ! j) ctx)) \<and>
       (case res of
          Inr qm \<Rightarrow> k = length hs \<and> d = rev [i..<i + k] \<and>
                   (\<forall>j<k. \<not> isl (CreateConnection (hs ! j) ctx))
        | Inl ge \<Rightarrow> \<exists>err. 0 < k \<and> d = rev [i..<i + (k - 1)] \<and>
                   CreateConnection (hs ! (k - 1)) ctx = Inl err \<and>
                   ge = \<lparr>Message = ''Failed to create grpc connection: '' @ Error env err,
                         Extensions = [(''code'', ''GRPC_CONNECT_ERROR'')]\<rparr>)"
proof (induction hs arbitrary: i q m tr d res)
  case Nil
  then show ?case by auto
next
  case (Cons h hs)
  show ?case
  proof (cases "CreateConnection h ctx")
    case (Inl err)
    with Cons.prems have "tr = [CreateConnectionCall i ctx]" "d = []"
      "res = Inl \<lparr>Message = ''Failed to create grpc connection: '' @ Error env err,
                         Extensions = [(''code'', ''GRPC_CONNECT_ERROR'')]\<rparr>" by auto
    with Inl show ?thesis by (intro exI[of _ 1]) auto
  next
    case (Inr c)
    obtain tr' d' where run: "connect_handlers env hs (Suc i) ctx
                  (assign_all (range_map env (GetQueries h c)) q)
                  (assign_all (range_map env (GetMutations h c)) m) = (tr', d', res)"
      and tr: "tr = CreateConnectionCall i ctx # tr'" and d: "d = d' @ [i]"
      using Cons.prems Inr by (auto split: prod.splits)
    from Cons.IH[OF run] obtain k where k: "k \<le> length hs"
      "tr' = map (\<lambda>j. CreateConnectionCall j ctx) [Suc i..<Suc i + k]"
      "\<forall>j. Suc j < k \<longrightarrow> \<not> isl (CreateConnection (hs ! j) ctx)"
      "(case res of
          Inr qm \<Rightarrow> k = length hs \<and> d' = rev [Suc i..<Suc i + k] \<and>
                   (\<forall>j<k. \<not> isl (CreateConnection (hs ! j) ctx))
        | Inl ge \<Rightarrow> \<exists>err. 0 < k \<and> d' = rev [Suc i..<Suc i + (k - 1)] \<and>
                   CreateConnection (hs ! (k - 1)) ctx = Inl err \<and>
                   ge = \<lparr>Message = ''Failed to create grpc connection: '' @ Error env err,
                         Extensions = [(''code'', ''GRPC_CONNECT_ERROR'')]\<rparr>)" by blast
    have 1: "tr = map (\<lambda>j. CreateConnectionCall j ctx) [i..<i + Suc k]"
      unfolding tr k(2) upt_add_Suc by simp
    have 2: "\<forall>j. Suc j < Suc k \<longrightarrow> \<not> isl (CreateConnection ((h # hs) ! j) ctx)"
    proof (intro allI impI)
      fix j assume "Suc j < Suc k"
      then show "\<not> isl (CreateConnection ((h # hs) ! j) ctx)"
        using k(3) Inr by (cases j) auto
    qed
    have 3: "(case res of
          Inr qm \<Rightarrow> Suc k = length (h # hs) \<and> d = rev [i..<i + Suc k] \<and>
                   (\<forall>j<Suc k. \<not> isl (CreateConnection ((h # hs) ! j) ctx))
        | Inl ge \<Rightarrow> \<exists>err. 0 < Suc k \<and> d = rev [i..<i + (Suc k - 1)] \<and>
                   CreateConnection ((h # hs) ! (Suc k - 1)) ctx = Inl err \<and>
                   ge = \<lparr>Message = ''Failed to create grpc connection: '' @ Error env err,
                         Extensions = [(''code'', ''GRPC_CONNECT_ERROR'')]\<rparr>)"
    proof (cases res)
      case (Inl ge)
      from k(4)[unfolded Inl sum.case]
      obtain err where e: "0 < k" "d' = rev [Suc i..<Suc i + (k - 1)]"
        "CreateConnection (hs ! (k - 1)) ctx = Inl err"
        "ge = \<lparr>Message = ''Failed to create grpc connection: '' @ Error env err,
                         Extensions = [(''code'', ''GRPC_CONNECT_ERROR'')]\<rparr>" by blast
      from e(1) obtain k' where k': "k = Suc k'" by (cases k) auto
      have "d = rev [i..<i + Suc k']" unfolding d e(2) upt_add_Suc k' by simp
      then show ?thesis using Inl e k' by simp
    next
      case (Inr qm)
      from k(4)[unfolded Inr sum.case]
      have a: "k = length hs" "d' = rev [Suc i..<Suc i + k]"
        "\<forall>j<k. \<not> isl (CreateConnection (hs ! j) ctx)" by blast+
      have b: "\<forall>j<Suc k. \<not> isl (CreateConnection ((h # hs) ! j) ctx)"
      proof (intro allI impI)
        fix j assume "j < Suc k"
        then show "\<not> isl (CreateConnection ((h # hs) ! j) ctx)"
          using a(3) \<open>CreateConnection h ctx = Inr c\<close> by (cases j) auto
      qed
      have "d = rev [i..<i + Suc k]" unfolding d a(2) upt_add_Suc by simp
      then show ?thesis using Inr a(1) b by simp
    qed
    show ?thesis using k(1) 1 2 3 by (intro exI[of _ "Suc k"]) simp
  qed
qed

lemma connect_handlers_merge:
  "connect_handlers env hs i ctx q m = (tr, d, Inr (q', m')) \<Longrightarrow>
   q' = merge_fields env (map (\<lambda>h. GetQueries h (projr (CreateConnection h ctx))) hs) q \<and>
   m' = merge_fields env (map (\<lambda>h. GetMutations h (projr (CreateConnection h ctx))) hs) m"
proof (induction hs arbitrary: i q m tr d)
  case Nil
  then show ?case by simp
next
  case (Cons h hs)
  then show ?case
    by (cases "CreateConnection h ctx") (auto split: prod.splits)
qed

subsection \<open>Maps\<close>

lemma range_map_entry:
  "(k, v) \<in> set (range_map env m) \<longleftrightarrow> k \<in> set (range_order env (map fst m)) \<and> map_of m k = Some v"
  by (auto simp: range_map_def split: option.splits)

lemma range_map_keys_subset: "fst ` set (range_map env m) \<subseteq> fst ` set m"
proof
  fix k assume "k \<in> fst ` set (range_map env m)"
  then obtain v where "(k, v) \<in> set (range_map env m)" by auto
  then have "map_of m k = Some v" by (simp add: range_map_entry)
  then have "(k, v) \<in> set m" by (rule map_of_SomeD)
  then show "k \<in> fst ` set m" by force
qed

lemma range_order_set: "range_permutes env \<Longrightarrow> set (range_order env ks) = set ks"
  unfolding range_permutes_def by (metis set_mset_mset)

lemma range_map_keys_list:
  assumes "range_permutes env"
  shows "map fst (range_map env m) = range_order env (map fst m)"
proof -
  have "\<And>ks. set ks \<subseteq> fst ` set m \<Longrightarrow>
     map fst (concat (map (\<lambda>k. case map_of m k of None \<Rightarrow> [] | Some v \<Rightarrow> [(k, v)]) ks)) = ks"
  proof -
    fix ks :: "string list"
    show "set ks \<subseteq> fst ` set m \<Longrightarrow>
      map fst (concat (map (\<lambda>k. case map_of m k of None \<Rightarrow> [] | Some v \<Rightarrow> [(k, v)]) ks)) = ks"
    proof (induction ks)
      case Nil
      then show ?case by simp
    next
      case (Cons k ks)
      then have "k \<in> fst ` set m" by simp
      then obtain v where "map_of m k = Some v"
        by (metis domD dom_map_of_conv_image_fst)
      with Cons show ?case by simp
    qed
  qed
  moreover have "set (range_order env (map fst m)) \<subseteq> fst ` set m"
    using range_order_set[OF assms, of "map fst m"] by simp
  ultimately show ?thesis by (simp add: range_map_def)
qed

lemma range_map_keys:
  "range_permutes env \<Longrightarrow> fst ` set (range_map env m) = fst ` set m"
  using range_map_keys_list[of env m] range_order_set[of env "map fst m"]
  by (metis list.set_map)


lemma assign_all_keys: "fst ` set (assign_all kvs dst) = fst ` set dst \<union> fst ` set kvs"
  by (induction kvs dst rule: assign_all.induct) (auto simp: dom_update)


lemma assign_all_lookup:
  "\<forall>(k, v) \<in> set kvs. f k = Some v \<Longrightarrow>
   map_of (assign_all kvs dst) k = (if k \<in> fst ` set kvs then f k else map_of dst k)"
proof (induction kvs dst rule: assign_all.induct)
  case (1 dst)
  then show ?case by simp
next
  case (2 k' v kvs dst)
  then show ?case by (auto simp: update_conv')
qed

lemma assign_range_lookup:
  assumes "range_permutes env"
  shows "map_of (assign_all (range_map env src) dst) k =
         (if k \<in> fst ` set src then map_of src k else map_of dst k)"
proof -
  have "\<forall>(k, v) \<in> set (range_map env src). map_of src k = Some v"
    by (auto simp: range_map_entry)
  from assign_all_lookup[OF this, of dst k] show ?thesis
    by (simp add: range_map_keys[OF assms])
qed

lemma merge_fields_keys:
  "range_permutes env \<Longrightarrow>
   fst ` set (merge_fields env srcs dst) = fst ` set dst \<union> (\<Union>src \<in> set srcs. fst ` set src)"
  by (induction srcs arbitrary: dst) (auto simp: assign_all_keys range_map_keys)


lemma merge_fields_absent:
  "range_permutes env \<Longrightarrow> \<forall>src \<in> set srcs. n \<notin> fst ` set src \<Longrightarrow>
   map_of (merge_fields env srcs dst) n = map_of dst n"
  by (induction srcs arbitrary: dst) (auto simp: assign_range_lookup)

lemma merge_fields_last_wins:
  "range_permutes env \<Longrightarrow> j < length srcs \<Longrightarrow> n \<in> fst ` set (srcs ! j) \<Longrightarrow>
   \<forall>l. j < l \<and> l < length srcs \<longrightarrow> n \<notin> fst ` set (srcs ! l) \<Longrightarrow>
   map_of (merge_fields env srcs dst) n = map_of (srcs ! j) n"
proof (induction srcs arbitrary: dst j)
  case Nil
  then show ?case by simp
next
  case (Cons src srcs)
  show ?case
  proof (cases j)
    case 0
    have "\<forall>s \<in> set srcs. n \<notin> fst ` set s"
    proof
      fix s assume "s \<in> set srcs"
      then obtain l where "l < length srcs" "srcs ! l = s" by (auto simp: in_set_conv_nth)
      with Cons.prems(4)[rule_format, of "Suc l"] 0 show "n \<notin> fst ` set s" by auto
    qed
    from merge_fields_absent[OF Cons.prems(1) this] Cons.prems 0 show ?thesis
      by (simp add: assign_range_lookup)
  next
    case (Suc j')
    have "\<forall>l. j' < l \<and> l < length srcs \<longrightarrow> n \<notin> fst ` set (srcs ! l)"
    proof (intro allI impI)
      fix l assume "j' < l \<and> l < length srcs"
      with Cons.prems(4)[rule_format, of "Suc l"] Suc show "n \<notin> fst ` set (srcs ! l)"
        by simp
    qed
    from Cons.IH[OF Cons.prems(1) _ _ this, of "assign_all (range_map env src) dst"]
      Cons.prems Suc show ?thesis by simp
  qed
qed

subsection \<open>Directives\<close>

lemma run_fns_events:
  "run_fns ctx r m fns = (tr, res) \<Longrightarrow> e \<in> set tr \<Longrightarrow>
   \<exists>d. e = DirectiveCall m d ctx \<and> d \<in> fst ` set fns"
proof (induction fns arbitrary: tr)
  case Nil
  then show ?case by simp
next
  case (Cons a fns)
  obtain d0 f0 where a: "a = (d0, f0)" by (cases a)
  show ?case
  proof (cases "f0 ctx r m")
    case None
    with Cons.prems a obtain tr' where "run_fns ctx r m fns = (tr', res)"
      "tr = DirectiveCall m d0 ctx # tr'" by (auto split: prod.splits)
    with Cons.IH[of tr'] Cons.prems(2) a show ?thesis by auto
  next
    case (Some err)
    with Cons a show ?thesis by auto
  qed
qed


lemma run_fns_failure:
  "\<forall>(d', f') \<in> set fns. g d' = Some f' \<Longrightarrow> run_fns ctx r m fns = (tr, res) \<Longrightarrow>
   DirectiveCall m' d c \<in> set tr \<Longrightarrow> g d = Some fn \<Longrightarrow> fn ctx r m = Some err \<Longrightarrow>
   res = Some (middleware_envelope ''DIRECTIVE_MIDDLEWARE_ERROR'' err)"
proof (induction fns arbitrary: tr)
  case Nil
  then show ?case by simp
next
  case (Cons a fns)
  obtain d0 f0 where a: "a = (d0, f0)" by (cases a)
  have g0: "g d0 = Some f0" using Cons.prems(1) a by simp
  show ?case
  proof (cases "f0 ctx r m")
    case (Some err0)
    with Cons.prems(2) a have "tr = [DirectiveCall m d0 ctx]"
      "res = Some (middleware_envelope ''DIRECTIVE_MIDDLEWARE_ERROR'' err0)" by auto
    with Cons.prems(3,4,5) g0 Some show ?thesis by auto
  next
    case None
    then obtain tr' where tr': "run_fns ctx r m fns = (tr', res)" "tr = DirectiveCall m d0 ctx # tr'"
      using Cons.prems(2) a by (auto split: prod.splits)
    have "d \<noteq> d0" using None Cons.prems(4,5) g0 by auto
    with Cons.prems(3) tr' have "DirectiveCall m' d c \<in> set tr'" by auto
    from Cons.IH[OF _ tr'(1) this Cons.prems(4,5)] Cons.prems(1) show ?thesis by simp
  qed
qed

lemma run_directives_events:
  fixes e :: "('c, 'f, 's, 'v) event"
  shows "e \<in> set (fst (run_directives env s ctx r q ms)) \<Longrightarrow>
   \<exists>m d ds. e = DirectiveCall m d ctx \<and> m \<in> set ms \<and> Contains q m \<and>
            map_of (graphQLMiddlewares s) m = Some ds \<and> d \<in> fst ` set ds"
proof (induction ms)
  case Nil
  then show ?case by simp
next
  case (Cons m0 ms)
  show ?case
  proof (cases "Contains q m0")
    case False
    with Cons show ?thesis by auto
  next
    case True
    show ?thesis
    proof (cases "map_of (graphQLMiddlewares s) m0")
      case None
      with True Cons show ?thesis by auto
    next
      case (Some ds)
      obtain tr0 :: "('c, 'f, 's, 'v) event list" and res0 where r0: "run_fns ctx r m0 (range_map env ds) = (tr0, res0)"
        by (cases "run_fns ctx r m0 (range_map env ds) :: ('c, 'f, 's, 'v) event list \<times> GraphqlError option")
      have in0: "\<exists>d. e = DirectiveCall m0 d ctx \<and> d \<in> fst ` set ds" if "e \<in> set tr0"
      proof -
        from run_fns_events[OF r0 that]
        obtain d where "e = DirectiveCall m0 d ctx" "d \<in> fst ` set (range_map env ds)" by auto
        with range_map_keys_subset[of env ds] show ?thesis by auto
      qed
      show ?thesis
      proof (cases res0)
        case None
        with Cons.prems True Some r0 have "e \<in> set tr0 \<or> e \<in> set (fst (run_directives env s ctx r q ms))"
          by (auto split: prod.splits)
        then show ?thesis
        proof
          assume "e \<in> set tr0"
          with in0 True Some show ?thesis by auto
        next
          assume "e \<in> set (fst (run_directives env s ctx r q ms))"
          from Cons.IH[OF this] show ?thesis by auto
        qed
      next
        case (Some ge)
        with Cons.prems True \<open>map_of (graphQLMiddlewares s) m0 = Some ds\<close> r0 have "e \<in> set tr0"
          by auto
        with in0 True \<open>map_of (graphQLMiddlewares s) m0 = Some ds\<close> show ?thesis by auto
      qed
    qed
  qed
qed

lemma run_directives_failure:
  fixes tr :: "('c, 'f, 's, 'v) event list"
  shows "run_directives env s ctx r q ms = (tr, res) \<Longrightarrow> DirectiveCall m d c \<in> set tr \<Longrightarrow>
   map_of (graphQLMiddlewares s) m = Some ds \<Longrightarrow> map_of ds d = Some fn \<Longrightarrow>
   fn ctx r m = Some err \<Longrightarrow>
   res = Some (middleware_envelope ''DIRECTIVE_MIDDLEWARE_ERROR'' err)"
proof (induction ms arbitrary: tr)
  case Nil
  then show ?case by simp
next
  case (Cons m0 ms)
  show ?case
  proof (cases "Contains q m0 \<and> map_of (graphQLMiddlewares s) m0 \<noteq> None")
    case False
    with Cons.prems(1) have "run_directives env s ctx r q ms = (tr, res)"
      by (auto split: if_splits)
    from Cons.IH[OF this Cons.prems(2-5)] show ?thesis .
  next
    case True
    then obtain ds0 where ds0: "Contains q m0" "map_of (graphQLMiddlewares s) m0 = Some ds0" by auto
    obtain tr0 :: "('c, 'f, 's, 'v) event list" and res0 where r0: "run_fns ctx r m0 (range_map env ds0) = (tr0, res0)"
      by (cases "run_fns ctx r m0 (range_map env ds0) :: ('c, 'f, 's, 'v) event list \<times> GraphqlError option")
    have vals: "\<forall>(d', f') \<in> set (range_map env ds0). map_of ds0 d' = Some f'"
      by (auto simp: range_map_entry)
    have in0: "res0 = Some (middleware_envelope ''DIRECTIVE_MIDDLEWARE_ERROR'' err)"
      if "DirectiveCall m d c \<in> set tr0"
    proof -
      from run_fns_events[OF r0 that]
      have "m = m0" by auto
      with ds0 Cons.prems(3) have "ds0 = ds" by simp
      with run_fns_failure[OF vals r0 that] Cons.prems(4,5) \<open>m = m0\<close> show ?thesis by simp
    qed
    show ?thesis
    proof (cases res0)
      case (Some ge)
      with Cons.prems(1) ds0 r0 have "tr = tr0" "res = res0" by auto
      with in0 Cons.prems(2) show ?thesis by simp
    next
      case None
      with Cons.prems(1) ds0 r0 obtain tr' where
        tr': "run_directives env s ctx r q ms = (tr', res)" "tr = tr0 @ tr'"
        by (auto split: prod.splits)
      have "DirectiveCall m d c \<notin> set tr0" using in0 None by auto
      with Cons.prems(2) tr' have "DirectiveCall m d c \<in> set tr'" by simp
      from Cons.IH[OF tr'(1) this Cons.prems(3-5)] show ?thesis .
    qed
  qed
qed




lemma run_directives_events':
  fixes tr :: "('c, 'f, 's, 'v) event list"
  shows "run_directives env s ctx r q ms = (tr, res) \<Longrightarrow> e \<in> set tr \<Longrightarrow>
   \<exists>m d ds. e = DirectiveCall m d ctx \<and> m \<in> set ms \<and> Contains q m \<and>
            map_of (graphQLMiddlewares s) m = Some ds \<and> d \<in> fst ` set ds"
  using run_directives_events[of e env s ctx r q ms] by simp

subsection \<open>The outcomes of a request\<close>

lemma serve_schema_outcomes:
  fixes env :: "('c, 'f, 's, 'v) env" and s :: "('c, 'n, 'f) ServeMux"
  obtains
    (schema_fail) err where
      "NewSchema env (schemaConfig_of q m) = Inl err"
      "serve_schema env s r ctx q m =
         NewSchemaCall (schemaConfig_of q m) #
         respondResult env (error_result
           \<lparr>Message = ''Failed to build schema: '' @ Error env err,
            Extensions = [(''code'', ''SCHEMA_GENERATION_ERROR'')]\<rparr>)"
  | (parse_fail) schema err where
      "NewSchema env (schemaConfig_of q m) = Inr schema"
      "parseRequest env r = Inl err"
      "serve_schema env s r ctx q m =
         NewSchemaCall (schemaConfig_of q m) # ParseRequestCall #
         respondResult env (error_result
           \<lparr>Message = ''Failed to parse request: '' @ Error env err,
            Extensions = [(''code'', ''REQUEST_PARSE_ERROR'')]\<rparr>)"
  | (directive_fail) schema req tr ge where
      "NewSchema env (schemaConfig_of q m) = Inr schema"
      "parseRequest env r = Inr req"
      "run_directives env s ctx r (req_Query req) (methodNames env q m) = (tr, Some ge)"
      "serve_schema env s r ctx q m =
         NewSchemaCall (schemaConfig_of q m) # ParseRequestCall # tr @
         respondResult env (error_result ge)"
  | (executed) schema req tr where
      "NewSchema env (schemaConfig_of q m) = Inr schema"
      "parseRequest env r = Inr req"
      "run_directives env s ctx r (req_Query req) (methodNames env q m) = (tr, None)"
      "serve_schema env s r ctx q m =
         NewSchemaCall (schemaConfig_of q m) # ParseRequestCall # tr @
         DoCall \<lparr>Schema = schema, RequestString = req_Query req,
                 VariableValues = req_Variables req, Context = ctx\<rparr> #
         (if Errors (Do env \<lparr>Schema = schema, RequestString = req_Query req,
                 VariableValues = req_Variables req, Context = ctx\<rparr>) \<noteq> []
          then [ErrorHandlerCall (ErrorHandler s)
                  (Errors (Do env \<lparr>Schema = schema, RequestString = req_Query req,
                 VariableValues = req_Variables req, Context = ctx\<rparr>))] else []) @
         respondResult env (Do env \<lparr>Schema = schema, RequestString = req_Query req,
                 VariableValues = req_Variables req, Context = ctx\<rparr>)"
proof (cases "NewSchema env (schemaConfig_of q m)")
  case (Inl err)
  then show ?thesis by (intro schema_fail[of err]) (simp_all add: serve_schema_def)
next
  case (Inr schema)
  note sch = this
  show ?thesis
  proof (cases "parseRequest env r")
    case (Inl err)
    with sch show ?thesis by (intro parse_fail[of schema err]) (simp_all add: serve_schema_def)
  next
    case (Inr req)
    obtain tr :: "('c, 'f, 's, 'v) event list" and res where
      rd: "run_directives env s ctx r (req_Query req) (methodNames env q m) = (tr, res)"
      by (metis surj_pair)
    show ?thesis
    proof (cases res)
      case None
      with sch Inr rd show ?thesis
        by (intro executed[of schema req tr]) (simp_all add: serve_schema_def Let_def)
    next
      case (Some ge)
      with sch Inr rd show ?thesis
        by (intro directive_fail[of schema req tr ge]) (simp_all add: serve_schema_def)
    qed
  qed
qed

lemma ServeHTTP_phases:
  fixes env :: "('c, 'f, 's, 'v) env" and s :: "('c, 'n, 'f) ServeMux"
  obtains
    (middleware_fail) k err where
      "k < length (middlewares s)"
      "\<forall>j<k. middleware_error s r j = None"
      "middleware_error s r k = Some err"
      "ServeHTTP env s r =
         middleware_calls s r (Suc k) @
         respondResult env (error_result (middleware_envelope ''MIDDLEWARE_ERROR'' err))"
  | (connect_fail) k err where
      "\<forall>j<length (middlewares s). middleware_error s r j = None"
      "k < length (handlers s)"
      "\<forall>j<k. \<not> isl (CreateConnection (handlers s ! j) (final_ctx s r))"
      "CreateConnection (handlers s ! k) (final_ctx s r) = Inl err"
      "ServeHTTP env s r =
         middleware_calls s r (length (middlewares s)) @ connection_calls s r (Suc k) @
         respondResult env (error_result
           \<lparr>Message = ''Failed to create grpc connection: '' @ Error env err,
            Extensions = [(''code'', ''GRPC_CONNECT_ERROR'')]\<rparr>) @
         closer_calls k"
  | (connected)
      "\<forall>j<length (middlewares s). middleware_error s r j = None"
      "\<forall>j<length (handlers s). \<not> isl (CreateConnection (handlers s ! j) (final_ctx s r))"
      "ServeHTTP env s r =
         middleware_calls s r (length (middlewares s)) @
         connection_calls s r (length (handlers s)) @
         serve_schema env s r (final_ctx s r) (merged_queries env s r) (merged_mutations env s r) @
         closer_calls (length (handlers s))"
proof -
  obtain tr1 :: "('c, 'f, 's, 'v) event list" and res1 where
    rm: "run_middlewares (middlewares s) 0 (r_Context r) r = (tr1, res1)" by (metis surj_pair)
  from run_middlewares_shape[OF rm] obtain k1 where k1:
    "k1 \<le> length (middlewares s)"
    "tr1 = middleware_calls s r k1"
    "\<forall>j. Suc j < k1 \<longrightarrow> middleware_error s r j = None"
    "(case res1 of
        Inr c' \<Rightarrow> k1 = length (middlewares s) \<and> c' = chain_ctx (middlewares s) r (r_Context r) k1 \<and>
                 (\<forall>j<k1. middleware_error s r j = None)
      | Inl ge \<Rightarrow> \<exists>err. 0 < k1 \<and> middleware_error s r (k1 - 1) = Some err \<and>
                 ge = middleware_envelope ''MIDDLEWARE_ERROR'' err)"
    unfolding middleware_calls_def middleware_error_def by auto
  show ?thesis
  proof (cases res1)
    case (Inl ge)
    from k1(4)[unfolded Inl sum.case] obtain err where e: "0 < k1"
      "middleware_error s r (k1 - 1) = Some err" "ge = middleware_envelope ''MIDDLEWARE_ERROR'' err"
      by blast
    from e(1) obtain k where k: "k1 = Suc k" by (cases k1) auto
    have "ServeHTTP env s r = middleware_calls s r (Suc k) @
         respondResult env (error_result (middleware_envelope ''MIDDLEWARE_ERROR'' err))"
      using rm Inl k1(2) e(3) k by (simp add: ServeHTTP_def)
    moreover have "k < length (middlewares s)" using k1(1) k by simp
    moreover have "\<forall>j<k. middleware_error s r j = None" using k1(3) k by simp
    moreover have "middleware_error s r k = Some err" using e(2) k by simp
    ultimately show ?thesis by (intro middleware_fail[of k err])
  next
    case (Inr ctx)
    from k1(4)[unfolded Inr sum.case] have c: "k1 = length (middlewares s)"
      "ctx = final_ctx s r" "\<forall>j<k1. middleware_error s r j = None"
      by (auto simp: final_ctx_def)
    obtain tr2 :: "('c, 'f, 's, 'v) event list" and d res2 where
      ch: "connect_handlers env (handlers s) 0 (final_ctx s r) [] [] = (tr2, d, res2)"
      by (metis surj_pair)
    from connect_handlers_shape[OF ch] obtain k2 where k2:
      "k2 \<le> length (handlers s)"
      "tr2 = connection_calls s r k2"
      "\<forall>j. Suc j < k2 \<longrightarrow> \<not> isl (CreateConnection (handlers s ! j) (final_ctx s r))"
      "(case res2 of
          Inr qm \<Rightarrow> k2 = length (handlers s) \<and> d = rev [0..<0 + k2] \<and>
                   (\<forall>j<k2. \<not> isl (CreateConnection (handlers s ! j) (final_ctx s r)))
        | Inl ge \<Rightarrow> \<exists>err. 0 < k2 \<and> d = rev [0..<0 + (k2 - 1)] \<and>
                   CreateConnection (handlers s ! (k2 - 1)) (final_ctx s r) = Inl err \<and>
                   ge = \<lparr>Message = ''Failed to create grpc connection: '' @ Error env err,
                         Extensions = [(''code'', ''GRPC_CONNECT_ERROR'')]\<rparr>)"
      unfolding connection_calls_def by (auto simp del: upt_Suc)
    show ?thesis
    proof (cases res2)
      case (Inl ge)
      from k2(4)[unfolded Inl sum.case] obtain err where e: "0 < k2"
        "d = rev [0..<0 + (k2 - 1)]"
        "CreateConnection (handlers s ! (k2 - 1)) (final_ctx s r) = Inl err"
        "ge = \<lparr>Message = ''Failed to create grpc connection: '' @ Error env err,
                         Extensions = [(''code'', ''GRPC_CONNECT_ERROR'')]\<rparr>" by blast
      from e(1) obtain k where k: "k2 = Suc k" by (cases k2) auto
      have "ServeHTTP env s r =
         middleware_calls s r (length (middlewares s)) @ connection_calls s r (Suc k) @
         respondResult env (error_result
           \<lparr>Message = ''Failed to create grpc connection: '' @ Error env err,
            Extensions = [(''code'', ''GRPC_CONNECT_ERROR'')]\<rparr>) @
         closer_calls k"
        using rm Inr c(1,2) k1(2) ch Inl k2(2) e(2,4) k
        by (simp add: ServeHTTP_def closer_calls_def del: upt_Suc)
      moreover have "k < length (handlers s)" using k2(1) k by simp
      moreover have "\<forall>j<k. \<not> isl (CreateConnection (handlers s ! j) (final_ctx s r))"
        using k2(3) k by simp
      moreover have "CreateConnection (handlers s ! k) (final_ctx s r) = Inl err"
        using e(3) k by simp
      ultimately show ?thesis using c(1,3) by (intro connect_fail[of k err]) simp_all
    next
      case (Inr qm)
      obtain q' m' where qm: "qm = (q', m')" by (cases qm)
      from k2(4)[unfolded Inr sum.case] have a: "k2 = length (handlers s)" "d = rev [0..<0 + k2]"
        "\<forall>j<k2. \<not> isl (CreateConnection (handlers s ! j) (final_ctx s r))" by blast+
      from connect_handlers_merge[OF ch[unfolded Inr qm]]
      have m: "q' = merged_queries env s r" "m' = merged_mutations env s r"
        by (simp_all add: merged_queries_def merged_mutations_def)
      have "ServeHTTP env s r =
         middleware_calls s r (length (middlewares s)) @
         connection_calls s r (length (handlers s)) @
         serve_schema env s r (final_ctx s r) (merged_queries env s r) (merged_mutations env s r) @
         closer_calls (length (handlers s))"
        using rm \<open>res1 = Inr ctx\<close> c(1,2) k1(2) ch Inr qm k2(2) a(1,2) m
        by (simp add: ServeHTTP_def closer_calls_def del: upt_Suc)
      then show ?thesis using c(1,3) a(1,3) by (intro connected) simp_all
    qed
  qed
qed

subsection \<open>Reading a trace\<close>

lemma responses_append [simp]: "responses (xs @ ys) = responses xs @ responses ys"
  by (induction xs rule: responses.induct) auto

lemma responses_none: "\<forall>res. RespondResultCall res \<notin> set tr \<Longrightarrow> responses tr = []"
  by (induction tr rule: responses.induct) auto

lemma responses_respondResult [simp]: "responses (respondResult env result) = [result]"
  by (simp add: respondResult_def Let_def)

lemma responses_middleware_calls [simp]: "responses (middleware_calls s r k) = []"
  by (rule responses_none) (auto simp: middleware_calls_def)

lemma responses_connection_calls [simp]: "responses (connection_calls s r k) = []"
  by (rule responses_none) (auto simp: connection_calls_def)

lemma responses_closer_calls [simp]: "responses (closer_calls k) = []"
  by (rule responses_none) (auto simp: closer_calls_def)

lemma responses_run_directives:
  fixes tr :: "('c, 'f, 's, 'v) event list"
  shows "run_directives env s ctx r q ms = (tr, res) \<Longrightarrow> responses tr = []"
  by (rule responses_none) (auto dest: run_directives_events')


lemma writer_middleware_calls [simp]: "filter is_writer_call (middleware_calls s r k) = []"
  by (auto simp: middleware_calls_def filter_empty_conv)

lemma writer_connection_calls [simp]: "filter is_writer_call (connection_calls s r k) = []"
  by (auto simp: connection_calls_def filter_empty_conv)

lemma writer_closer_calls [simp]: "filter is_writer_call (closer_calls k) = []"
  by (auto simp: closer_calls_def filter_empty_conv)




section \<open>The claims\<close>




lemma Contains_sublist: "Contains s substr \<longleftrightarrow> sublist substr s"
  by (induction s) (auto simp: sublist_Cons_right)

lemma Contains_append: "Contains (a @ b) b"
  by (simp add: Contains_sublist)

lemma in_middleware_calls:
  "e \<in> set (middleware_calls s r k) \<longleftrightarrow>
   (\<exists>j<k. e = MiddlewareCall j (chain_ctx (middlewares s) r (r_Context r) j))"
  by (auto simp: middleware_calls_def)

lemma in_connection_calls:
  "e \<in> set (connection_calls s r k) \<longleftrightarrow> (\<exists>j<k. e = CreateConnectionCall j (final_ctx s r))"
  by (auto simp: connection_calls_def)

lemma in_closer_calls: "e \<in> set (closer_calls k) \<longleftrightarrow> (\<exists>j<k. e = CloserCall j)"
  by (auto simp: closer_calls_def)

lemma in_respondResult:
  "e \<in> set (respondResult env result) \<Longrightarrow>
   e = RespondResultCall result \<or> (\<exists>k v. e = HeaderSet k v) \<or>
   (\<exists>code. e = WriteHeader code) \<or> (\<exists>out. e = Write out)"
  by (auto simp: respondResult_def Let_def)

lemma in_serve_schema:
  fixes env :: "('c, 'f, 's, 'v) env" and s :: "('c, 'n, 'f) ServeMux"
  assumes "e \<in> set (serve_schema env s r ctx q m)"
  shows "e = NewSchemaCall (schemaConfig_of q m) \<or> e = ParseRequestCall \<or>
         (\<exists>m d. e = DirectiveCall m d ctx) \<or> (\<exists>p. e = DoCall p) \<or>
         (\<exists>es. e = ErrorHandlerCall (ErrorHandler s) es) \<or>
         (\<exists>result. e = RespondResultCall result) \<or> (\<exists>k v. e = HeaderSet k v) \<or>
         (\<exists>code. e = WriteHeader code) \<or> (\<exists>out. e = Write out)"
proof (cases rule: serve_schema_outcomes[of env q m s r ctx])
  case (schema_fail err)
  with assms show ?thesis by (auto dest: in_respondResult)
next
  case (parse_fail schema err)
  with assms show ?thesis by (auto dest: in_respondResult)
next
  case (directive_fail schema req tr ge)
  with assms show ?thesis
    by (auto dest!: in_respondResult run_directives_events'[OF directive_fail(3)])
next
  case (executed schema req tr)
  with assms show ?thesis
    by (auto dest!: in_respondResult run_directives_events'[OF executed(3)] split: if_splits)
qed


lemma filter_release_upt:
  "filter (is_release_of i) (map CloserCall [0..<k]) = (if i < k then [CloserCall i] else [])"
  by (induction k) auto

lemma filter_release_closer_calls:
  "filter (is_release_of i) (closer_calls k) = (if i < k then [CloserCall i] else [])"
proof -
  have "filter (is_release_of i) (closer_calls k) =
        rev (filter (is_release_of i) (map CloserCall [0..<k]))"
    by (simp add: closer_calls_def rev_map rev_filter)
  then show ?thesis by (cases "i < k") (simp_all add: filter_release_upt del: upt_Suc)
qed

lemma filter_none: "(\<And>e. e \<in> set tr \<Longrightarrow> \<not> P e) \<Longrightarrow> filter P tr = []"
  by (simp add: filter_empty_conv)

lemma filter_acquisition_others [simp]:
  "filter (is_acquisition_of i) (middleware_calls s r k) = []"
  "filter (is_acquisition_of i) (closer_calls k) = []"
  "filter (is_acquisition_of i) (respondResult env result) = []"
  "filter (is_acquisition_of i) (serve_schema env s r ctx q m) = []"
  by (rule filter_none;
      auto simp: in_middleware_calls in_closer_calls dest!: in_respondResult in_serve_schema)+

lemma filter_release_others [simp]:
  "filter (is_release_of i) (middleware_calls s r k) = []"
  "filter (is_release_of i) (connection_calls s r k) = []"
  "filter (is_release_of i) (respondResult env result) = []"
  "filter (is_release_of i) (serve_schema env s r ctx q m) = []"
  by (rule filter_none;
      auto simp: in_middleware_calls in_connection_calls dest!: in_respondResult in_serve_schema)+

lemma filter_middleware_call_others [simp]:
  "filter is_middleware_call (middleware_calls s r k) = middleware_calls s r k"
  "filter is_middleware_call (connection_calls s r k) = []"
  "filter is_middleware_call (closer_calls k) = []"
  "filter is_middleware_call (respondResult env result) = []"
  "filter is_middleware_call (serve_schema env s r ctx q m) = []"
      apply (simp add: middleware_calls_def filter_id_conv)
     apply (rule filter_none; auto simp: in_connection_calls)
    apply (rule filter_none; auto simp: in_closer_calls)
   apply (rule filter_none; auto dest!: in_respondResult)
  apply (rule filter_none; auto dest!: in_serve_schema)
  done

lemmas ex_defs = ex_env_def hello_handler_def search_handler_def refused_handler_def
  ping_handler_def write_only_handler_def empty_handler_def count_middleware_def
  auth_middleware_def allow_directive_def deny_directive_def ex_mux_def denied_mux_def
  refused_mux_def guarded_mux_def ping_mux_def search_request_def alias_request_def
  ping_request_def empty_request_def

lemmas run_defs = ServeHTTP_def serve_schema_def respondResult_def error_result_def
  schemaConfig_of_def methodNames_def range_map_def StatusOK_def Let_def

lemma Sprint_2: "Sprint (Suc (Suc 0)) = ''2''"
  by (simp add: Sprint.simps digit_def)

lemma middleware_call_failed:
  fixes env :: "('c, 'f, 's, 'v) env" and s :: "('c, 'n, 'f) ServeMux"
  assumes "MiddlewareCall i c \<in> set (ServeHTTP env s r)"
    and "snd ((middlewares s ! i) c r) = Some err"
  shows "ServeHTTP env s r = middleware_calls s r (Suc i) @
           respondResult env (error_result (middleware_envelope ''MIDDLEWARE_ERROR'' err))"
proof -
  have mw: "j < k \<Longrightarrow> \<forall>j<k. middleware_error s r j = None \<Longrightarrow>
            MiddlewareCall i c \<noteq> MiddlewareCall j (chain_ctx (middlewares s) r (r_Context r) j)"
    for j k
    using assms(2) by (auto simp: middleware_error_def)
  show ?thesis
  proof (cases rule: ServeHTTP_phases[of s r env])
    case (middleware_fail k err')
    from assms(1) middleware_fail(4) obtain j where j: "j < Suc k" "i = j"
      "c = chain_ctx (middlewares s) r (r_Context r) j"
      by (auto simp: in_middleware_calls dest!: in_respondResult)
    have "\<not> j < k" using middleware_fail(2) j assms(2) by (auto simp: middleware_error_def)
    with j have "i = k" by simp
    with middleware_fail(3) j assms(2) have "err' = err" by (simp add: middleware_error_def)
    with middleware_fail(4) \<open>i = k\<close> show ?thesis by simp
  next
    case (connect_fail k err')
    with assms(1) mw show ?thesis
      by (auto simp: in_middleware_calls in_connection_calls in_closer_calls dest!: in_respondResult)
  next
    case connected
    with assms(1) mw show ?thesis
      by (auto simp: in_middleware_calls in_connection_calls in_closer_calls dest!: in_serve_schema)
  qed
qed



lemma denied_trace:
  "ServeHTTP ex_env denied_mux search_request =
   [MiddlewareCall 0 0, MiddlewareCall 1 1,
    RespondResultCall
      \<lparr>Data = None,
       Errors = [\<lparr>Message = ''no token'', Extensions = [(''code'', ''UNAUTHORIZED'')]\<rparr>]\<rparr>,
    HeaderSet ''Content-Type'' ''application/json'',
    HeaderSet ''Content-Length'' ''2'', WriteHeader 200, Write ''{}'']"
  by (simp add: ex_defs run_defs Sprint_2)


lemma acquisition_membership [simp]:
  "CreateConnectionCall i c \<notin> set (middleware_calls s r k)"
  "CreateConnectionCall i c \<notin> set (closer_calls k)"
  "CreateConnectionCall i c \<notin> set (respondResult env result)"
  "CreateConnectionCall i c \<notin> set (serve_schema env s r ctx q m)"
  "CreateConnectionCall i c \<in> set (connection_calls s r k) \<longleftrightarrow> i < k \<and> c = final_ctx s r"
  by (auto simp: in_middleware_calls in_closer_calls in_connection_calls
      dest!: in_respondResult in_serve_schema)

lemma release_membership [simp]:
  "CloserCall i \<notin> set (middleware_calls s r k)"
  "CloserCall i \<notin> set (connection_calls s r k)"
  "CloserCall i \<notin> set (respondResult env result)"
  "CloserCall i \<notin> set (serve_schema env s r ctx q m)"
  "CloserCall i \<in> set (closer_calls k) \<longleftrightarrow> i < k"
  by (auto simp: in_middleware_calls in_closer_calls in_connection_calls
      dest!: in_respondResult in_serve_schema)

lemma schema_membership [simp]:
  "NewSchemaCall cfg \<notin> set (middleware_calls s r k)"
  "NewSchemaCall cfg \<notin> set (closer_calls k)"
  "NewSchemaCall cfg \<notin> set (respondResult env result)"
  "NewSchemaCall cfg \<notin> set (connection_calls s r k)"
  by (auto simp: in_middleware_calls in_closer_calls in_connection_calls
      dest!: in_respondResult)

lemma connection_call_failed:
  fixes env :: "('c, 'f, 's, 'v) env" and s :: "('c, 'n, 'f) ServeMux"
  assumes "CreateConnectionCall k c \<in> set (ServeHTTP env s r)"
    and "CreateConnection (handlers s ! k) c = Inl err"
  shows "ServeHTTP env s r =
         middleware_calls s r (length (middlewares s)) @ connection_calls s r (Suc k) @
         respondResult env (error_result
           \<lparr>Message = ''Failed to create grpc connection: '' @ Error env err,
            Extensions = [(''code'', ''GRPC_CONNECT_ERROR'')]\<rparr>) @
         closer_calls k"
proof (cases rule: ServeHTTP_phases[of s r env])
  case (middleware_fail k' err')
  with assms(1) show ?thesis by simp
next
  case (connect_fail k' err')
  from assms(1) connect_fail(5) have k: "k < Suc k'" "c = final_ctx s r" by simp_all
  have "\<not> k < k'" using connect_fail(3) assms(2) k(2) by auto
  with k have "k = k'" by simp
  with connect_fail(4) assms(2) k(2) have "err' = err" by simp
  with connect_fail(5) \<open>k = k'\<close> show ?thesis by simp
next
  case connected
  from assms(1) connected(3) have "k < length (handlers s)" "c = final_ctx s r" by simp_all
  with connected(2) assms(2) show ?thesis by auto
qed

text \<open>
  C4. If the connection acquisition of a handler fails (handler \<open>k\<close> is asked for a
  connection and returns the error \<open>err\<close>), the request ends with one response whose only
  error has the code \<open>GRPC_CONNECT_ERROR\<close> and a message that contains the text of
  \<open>err\<close>; no later handler is asked for a connection, no schema is built, and every
  earlier handler, which was asked and succeeded, has its closer run exactly once.
\<close>

theorem connect_error_aborts:
  fixes env :: "('c, 'f, 's, 'v) env" and s :: "('c, 'n, 'f) ServeMux"
  shows
  "CreateConnectionCall k c \<in> set (ServeHTTP env s r) \<and>
   CreateConnection (handlers s ! k) c = Inl err \<longrightarrow>
     responses (ServeHTTP env s r) =
       [\<lparr>Data = None,
         Errors = [\<lparr>Message = ''Failed to create grpc connection: '' @ Error env err,
                    Extensions = [(''code'', ''GRPC_CONNECT_ERROR'')]\<rparr>]\<rparr>] \<and>
     Contains (''Failed to create grpc connection: '' @ Error env err) (Error env err) \<and>
     (\<forall>j c'. k < j \<longrightarrow> CreateConnectionCall j c' \<notin> set (ServeHTTP env s r)) \<and>
     (\<forall>j<k. CreateConnectionCall j c \<in> set (ServeHTTP env s r) \<and>
             length (filter (is_release_of j) (ServeHTTP env s r)) = 1) \<and>
     (\<forall>cfg. NewSchemaCall cfg \<notin> set (ServeHTTP env s r))"
proof
  assume a: "CreateConnectionCall k c \<in> set (ServeHTTP env s r) \<and>
   CreateConnection (handlers s ! k) c = Inl err"
  then have c: "c = final_ctx s r"
    by (cases rule: ServeHTTP_phases[of s r env]) auto
  note tr = connection_call_failed[of k c env s r err, OF conjunct1[OF a] conjunct2[OF a]]
  show "responses (ServeHTTP env s r) =
       [\<lparr>Data = None,
         Errors = [\<lparr>Message = ''Failed to create grpc connection: '' @ Error env err,
                    Extensions = [(''code'', ''GRPC_CONNECT_ERROR'')]\<rparr>]\<rparr>] \<and>
     Contains (''Failed to create grpc connection: '' @ Error env err) (Error env err) \<and>
     (\<forall>j c'. k < j \<longrightarrow> CreateConnectionCall j c' \<notin> set (ServeHTTP env s r)) \<and>
     (\<forall>j<k. CreateConnectionCall j c \<in> set (ServeHTTP env s r) \<and>
             length (filter (is_release_of j) (ServeHTTP env s r)) = 1) \<and>
     (\<forall>cfg. NewSchemaCall cfg \<notin> set (ServeHTTP env s r))"
    unfolding tr using Contains_append[of "''Failed to create grpc connection: ''" "Error env err"] c
    by (simp add: error_result_def filter_release_closer_calls)
qed

lemma refused_trace:
  "ServeHTTP ex_env refused_mux search_request =
   [CreateConnectionCall 0 0, CreateConnectionCall 1 0,
    RespondResultCall
      \<lparr>Data = None,
       Errors = [\<lparr>Message = ''Failed to create grpc connection: dial refused'',
                  Extensions = [(''code'', ''GRPC_CONNECT_ERROR'')]\<rparr>]\<rparr>,
    HeaderSet ''Content-Type'' ''application/json'',
    HeaderSet ''Content-Length'' ''2'', WriteHeader 200, Write ''{}'',
    CloserCall 0]"
  by (simp add: ex_defs run_defs Sprint_2)

theorem connect_error_aborts_witness:
  "CreateConnectionCall 1 0 \<in> set (ServeHTTP ex_env refused_mux search_request) \<and>
   CreateConnection (handlers refused_mux ! 1) 0 = Inl (GoError ''dial refused'') \<and>
   responses (ServeHTTP ex_env refused_mux search_request) =
     [\<lparr>Data = None,
       Errors = [\<lparr>Message = ''Failed to create grpc connection: dial refused'',
                  Extensions = [(''code'', ''GRPC_CONNECT_ERROR'')]\<rparr>]\<rparr>] \<and>
   CreateConnectionCall 2 0 \<notin> set (ServeHTTP ex_env refused_mux search_request) \<and>
   length (filter (is_release_of 0) (ServeHTTP ex_env refused_mux search_request)) = 1"
proof -
  have called: "CreateConnectionCall 1 0 \<in> set (ServeHTTP ex_env refused_mux search_request)"
    by (simp add: refused_trace)
  have failed: "CreateConnection (handlers refused_mux ! 1) 0 = Inl (GoError ''dial refused'')"
    by (simp add: refused_mux_def refused_handler_def)
  have err: "Error ex_env (GoError ''dial refused'') = ''dial refused''"
    by simp
  from connect_error_aborts[where env = ex_env and s = refused_mux and r = search_request
      and k = 1 and c = 0 and err = "GoError ''dial refused''"] called failed
  show ?thesis unfolding err by simp
qed

lemma closer_calls_0 [simp]: "closer_calls 0 = []"
  by (simp add: closer_calls_def)





subsection \<open>Failing middlewares\<close>

lemma directive_membership [simp]:
  "DirectiveCall m d c \<notin> set (middleware_calls s r k)"
  "DirectiveCall m d c \<notin> set (closer_calls k)"
  "DirectiveCall m d c \<notin> set (respondResult env result)"
  "DirectiveCall m d c \<notin> set (connection_calls s r k)"
  by (auto simp: in_middleware_calls in_closer_calls in_connection_calls
      dest!: in_respondResult)

lemma execution_membership [simp]:
  "DoCall p \<notin> set (middleware_calls s r k)"
  "DoCall p \<notin> set (closer_calls k)"
  "DoCall p \<notin> set (respondResult env result)"
  "DoCall p \<notin> set (connection_calls s r k)"
  by (auto simp: in_middleware_calls in_closer_calls in_connection_calls
      dest!: in_respondResult)

lemma execution_not_directive:
  fixes tr :: "('c, 'f, 's, 'v) event list"
  shows "run_directives env s ctx r q ms = (tr, res) \<Longrightarrow> DoCall p \<notin> set tr"
  by (auto dest: run_directives_events')

lemma directive_call_failed:
  fixes env :: "('c, 'f, 's, 'v) env" and s :: "('c, 'n, 'f) ServeMux"
  assumes "DirectiveCall m d c \<in> set (ServeHTTP env s r)"
    and "map_of (graphQLMiddlewares s) m = Some ds" and "map_of ds d = Some fn"
    and "fn c r m = Some err"
  shows "responses (ServeHTTP env s r) =
           [error_result (middleware_envelope ''DIRECTIVE_MIDDLEWARE_ERROR'' err)] \<and>
         (\<forall>p. DoCall p \<notin> set (ServeHTTP env s r))"
proof (cases rule: ServeHTTP_phases[of s r env])
  case (middleware_fail k err')
  with assms(1) show ?thesis by simp
next
  case (connect_fail k err')
  with assms(1) show ?thesis by simp
next
  case connected
  let ?ctx = "final_ctx s r" and ?q = "merged_queries env s r" and ?m = "merged_mutations env s r"
  from assms(1) connected(3) have in_schema: "DirectiveCall m d c \<in> set (serve_schema env s r ?ctx ?q ?m)"
    by simp
  show ?thesis
  proof (cases rule: serve_schema_outcomes[of env ?q ?m s r ?ctx])
    case (schema_fail err')
    with in_schema show ?thesis by simp
  next
    case (parse_fail schema err')
    with in_schema show ?thesis by simp
  next
    case (directive_fail schema req tr ge)
    from in_schema directive_fail(4) have in_tr: "DirectiveCall m d c \<in> set tr" by simp
    from run_directives_events'[OF directive_fail(3) in_tr] have "c = ?ctx" by simp
    with run_directives_failure[OF directive_fail(3) in_tr assms(2,3)] assms(4)
    have "ge = middleware_envelope ''DIRECTIVE_MIDDLEWARE_ERROR'' err" by simp
    then show ?thesis unfolding connected(3) directive_fail(4)
      using responses_run_directives[OF directive_fail(3)]
        execution_not_directive[OF directive_fail(3)]
      by simp
  next
    case (executed schema req tr)
    from in_schema executed(4) have in_tr: "DirectiveCall m d c \<in> set tr" by simp
    from run_directives_events'[OF executed(3) in_tr] have "c = ?ctx" by simp
    with run_directives_failure[OF executed(3) in_tr assms(2,3)] assms(4)
    show ?thesis by simp
  qed
qed

text \<open>
  C7. A failing middleware gives an error envelope whose code and message are those of the
  error when it is a \<open>*MiddlewareError\<close>, and otherwise whose message is the text of the
  error and whose code is \<open>MIDDLEWARE_ERROR\<close> for a global middleware and
  \<open>DIRECTIVE_MIDDLEWARE_ERROR\<close> for a directive middleware; after a directive
  middleware has failed the query is never executed.
\<close>

theorem middleware_error_envelope:
  fixes env :: "('c, 'f, 's, 'v) env" and s :: "('c, 'n, 'f) ServeMux"
  shows
  "(\<forall>i c err.
      MiddlewareCall i c \<in> set (ServeHTTP env s r) \<and> snd ((middlewares s ! i) c r) = Some err \<longrightarrow>
        (\<forall>code msg. err = MiddlewareError code msg \<longrightarrow>
           responses (ServeHTTP env s r) =
             [\<lparr>Data = None,
               Errors = [\<lparr>Message = msg, Extensions = [(''code'', code)]\<rparr>]\<rparr>]) \<and>
        (\<forall>txt. err = GoError txt \<longrightarrow>
           responses (ServeHTTP env s r) =
             [\<lparr>Data = None,
               Errors = [\<lparr>Message = txt, Extensions = [(''code'', ''MIDDLEWARE_ERROR'')]\<rparr>]\<rparr>])) \<and>
   (\<forall>m d c ds fn err.
      DirectiveCall m d c \<in> set (ServeHTTP env s r) \<and>
      map_of (graphQLMiddlewares s) m = Some ds \<and> map_of ds d = Some fn \<and>
      fn c r m = Some err \<longrightarrow>
        (\<forall>code msg. err = MiddlewareError code msg \<longrightarrow>
           responses (ServeHTTP env s r) =
             [\<lparr>Data = None,
               Errors = [\<lparr>Message = msg, Extensions = [(''code'', code)]\<rparr>]\<rparr>]) \<and>
        (\<forall>txt. err = GoError txt \<longrightarrow>
           responses (ServeHTTP env s r) =
             [\<lparr>Data = None,
               Errors = [\<lparr>Message = txt,
                          Extensions = [(''code'', ''DIRECTIVE_MIDDLEWARE_ERROR'')]\<rparr>]\<rparr>]) \<and>
        (\<forall>p. DoCall p \<notin> set (ServeHTTP env s r)))"
proof (intro conjI allI impI)
  fix i c err code msg
  assume a: "MiddlewareCall i c \<in> set (ServeHTTP env s r) \<and> snd ((middlewares s ! i) c r) = Some err"
    and e: "err = MiddlewareError code msg"
  note tr = middleware_call_failed[OF conjunct1[OF a] conjunct2[OF a]]
  show "responses (ServeHTTP env s r) =
             [\<lparr>Data = None,
               Errors = [\<lparr>Message = msg, Extensions = [(''code'', code)]\<rparr>]\<rparr>]"
    unfolding tr e by (simp add: error_result_def)
next
  fix i c err t
  assume a: "MiddlewareCall i c \<in> set (ServeHTTP env s r) \<and> snd ((middlewares s ! i) c r) = Some err"
    and e: "err = GoError t"
  note tr = middleware_call_failed[OF conjunct1[OF a] conjunct2[OF a]]
  show "responses (ServeHTTP env s r) =
             [\<lparr>Data = None,
               Errors = [\<lparr>Message = t, Extensions = [(''code'', ''MIDDLEWARE_ERROR'')]\<rparr>]\<rparr>]"
    unfolding tr e by (simp add: error_result_def)
next
  fix m d c ds fn err code msg
  assume a: "DirectiveCall m d c \<in> set (ServeHTTP env s r) \<and>
      map_of (graphQLMiddlewares s) m = Some ds \<and> map_of ds d = Some fn \<and>
      fn c r m = Some err"
    and e: "err = MiddlewareError code msg"
  from a have "DirectiveCall m d c \<in> set (ServeHTTP env s r)"
    "map_of (graphQLMiddlewares s) m = Some ds" "map_of ds d = Some fn" "fn c r m = Some err"
    by blast+
  note tr = directive_call_failed[OF this, THEN conjunct1]
  show "responses (ServeHTTP env s r) =
             [\<lparr>Data = None,
               Errors = [\<lparr>Message = msg, Extensions = [(''code'', code)]\<rparr>]\<rparr>]"
    unfolding tr e by (simp add: error_result_def)
next
  fix m d c ds fn err t
  assume a: "DirectiveCall m d c \<in> set (ServeHTTP env s r) \<and>
      map_of (graphQLMiddlewares s) m = Some ds \<and> map_of ds d = Some fn \<and>
      fn c r m = Some err"
    and e: "err = GoError t"
  from a have "DirectiveCall m d c \<in> set (ServeHTTP env s r)"
    "map_of (graphQLMiddlewares s) m = Some ds" "map_of ds d = Some fn" "fn c r m = Some err"
    by blast+
  note tr = directive_call_failed[OF this, THEN conjunct1]
  show "responses (ServeHTTP env s r) =
             [\<lparr>Data = None,
               Errors = [\<lparr>Message = t,
                          Extensions = [(''code'', ''DIRECTIVE_MIDDLEWARE_ERROR'')]\<rparr>]\<rparr>]"
    unfolding tr e by (simp add: error_result_def)
next
  fix m d c ds fn err p
  assume a: "DirectiveCall m d c \<in> set (ServeHTTP env s r) \<and>
      map_of (graphQLMiddlewares s) m = Some ds \<and> map_of ds d = Some fn \<and>
      fn c r m = Some err"
  from a have "DirectiveCall m d c \<in> set (ServeHTTP env s r)"
    "map_of (graphQLMiddlewares s) m = Some ds" "map_of ds d = Some fn" "fn c r m = Some err"
    by blast+
  from directive_call_failed[OF this, THEN conjunct2]
  show "DoCall p \<notin> set (ServeHTTP env s r)" by (rule spec)
qed

lemma guarded_trace:
  "ServeHTTP ex_env guarded_mux alias_request =
   [CreateConnectionCall 0 0,
    NewSchemaCall
      \<lparr>Query = Some \<lparr>Name = ''Query'', Fields = [(''hello'', ''hello.hello'')]\<rparr>,
       Mutation = Some \<lparr>Name = ''Mutation'', Fields = [(''create'', ''hello.create'')]\<rparr>\<rparr>,
    ParseRequestCall, DirectiveCall ''hello'' ''guard'' 0,
    RespondResultCall
      \<lparr>Data = None,
       Errors = [\<lparr>Message = ''denied'',
                  Extensions = [(''code'', ''DIRECTIVE_MIDDLEWARE_ERROR'')]\<rparr>]\<rparr>,
    HeaderSet ''Content-Type'' ''application/json'',
    HeaderSet ''Content-Length'' ''2'', WriteHeader 200, Write ''{}'',
    CloserCall 0]"
  by (simp add: ex_defs run_defs Sprint_2)

theorem middleware_error_envelope_witness:
  "MiddlewareCall 1 1 \<in> set (ServeHTTP ex_env denied_mux search_request) \<and>
   snd ((middlewares denied_mux ! 1) 1 search_request) =
     Some (MiddlewareError ''UNAUTHORIZED'' ''no token'') \<and>
   responses (ServeHTTP ex_env denied_mux search_request) =
     [\<lparr>Data = None,
       Errors = [\<lparr>Message = ''no token'', Extensions = [(''code'', ''UNAUTHORIZED'')]\<rparr>]\<rparr>] \<and>
   DirectiveCall ''hello'' ''guard'' 0 \<in> set (ServeHTTP ex_env guarded_mux alias_request) \<and>
   map_of (graphQLMiddlewares guarded_mux) ''hello'' = Some [(''guard'', deny_directive)] \<and>
   deny_directive 0 alias_request ''hello'' = Some (GoError ''denied'') \<and>
   responses (ServeHTTP ex_env guarded_mux alias_request) =
     [\<lparr>Data = None,
       Errors = [\<lparr>Message = ''denied'',
                  Extensions = [(''code'', ''DIRECTIVE_MIDDLEWARE_ERROR'')]\<rparr>]\<rparr>] \<and>
   DoCall \<lparr>Schema = \<lparr>Query = None, Mutation = None\<rparr>, RequestString = ''{ hello }'',
           VariableValues = [], Context = 0\<rparr>
     \<notin> set (ServeHTTP ex_env guarded_mux alias_request)"
proof -
  have called: "MiddlewareCall 1 1 \<in> set (ServeHTTP ex_env denied_mux search_request)"
    by (simp add: denied_trace)
  have failed: "snd ((middlewares denied_mux ! 1) 1 search_request) =
     Some (MiddlewareError ''UNAUTHORIZED'' ''no token'')"
    by (simp add: denied_mux_def auth_middleware_def)
  have dcalled: "DirectiveCall ''hello'' ''guard'' 0 \<in> set (ServeHTTP ex_env guarded_mux alias_request)"
    by (simp add: guarded_trace)
  have reg: "map_of (graphQLMiddlewares guarded_mux) ''hello'' = Some [(''guard'', deny_directive)]"
    "map_of [(''guard'', deny_directive)] ''guard'' = Some deny_directive"
    by (simp_all add: guarded_mux_def)
  have dfailed: "deny_directive 0 alias_request ''hello'' = Some (GoError ''denied'')"
    by (simp add: deny_directive_def)
  note g = middleware_error_envelope[where env = ex_env and s = denied_mux
      and r = search_request, THEN conjunct1, rule_format, OF conjI[OF called failed],
      THEN conjunct1, rule_format, OF refl]
  note d = middleware_error_envelope[where env = ex_env and s = guarded_mux
      and r = alias_request, THEN conjunct2, rule_format,
      of "''hello''" "''guard''" 0 "[(''guard'', deny_directive)]" deny_directive
         "GoError ''denied''",
      OF conjI[OF dcalled conjI[OF reg(1) conjI[OF reg(2) dfailed]]]]
  note d1 = d[THEN conjunct2, THEN conjunct1, rule_format, OF refl]
  note d2 = d[THEN conjunct2, THEN conjunct2, rule_format]
  show ?thesis
    by (intro conjI called failed g dcalled reg(1) dfailed d1 d2)
qed

subsection \<open>Reading the request\<close>

lemma parse_membership [simp]:
  "ParseRequestCall \<notin> set (middleware_calls s r k)"
  "ParseRequestCall \<notin> set (closer_calls k)"
  "ParseRequestCall \<notin> set (respondResult env result)"
  "ParseRequestCall \<notin> set (connection_calls s r k)"
  by (auto simp: in_middleware_calls in_closer_calls in_connection_calls
      dest!: in_respondResult)








subsection \<open>The merged maps\<close>

lemma config_fields_schemaConfig_of [simp]:
  "config_fields (Query (schemaConfig_of q m)) = q"
  "config_fields (Mutation (schemaConfig_of q m)) = m"
  by (cases q; cases m; simp add: schemaConfig_of_def Let_def)+

lemma schema_call_config:
  fixes env :: "('c, 'f, 's, 'v) env" and s :: "('c, 'n, 'f) ServeMux"
  assumes "NewSchemaCall cfg \<in> set (ServeHTTP env s r)"
  shows "cfg = schemaConfig_of (merged_queries env s r) (merged_mutations env s r) \<and>
         (\<forall>j<length (handlers s). \<not> isl (CreateConnection (handlers s ! j) (final_ctx s r)))"
proof (cases rule: ServeHTTP_phases[of s r env])
  case (middleware_fail k err)
  with assms show ?thesis by simp
next
  case (connect_fail k err)
  with assms show ?thesis by simp
next
  case connected
  from assms connected(3) have "NewSchemaCall cfg \<in> set (serve_schema env s r (final_ctx s r)
      (merged_queries env s r) (merged_mutations env s r))" by simp
  from in_serve_schema[OF this] connected(2) show ?thesis by simp
qed

lemma connection_call_ctx:
  fixes env :: "('c, 'f, 's, 'v) env" and s :: "('c, 'n, 'f) ServeMux"
  assumes "CreateConnectionCall j ctx \<in> set (ServeHTTP env s r)"
  shows "ctx = final_ctx s r \<and> j < length (handlers s)"
proof (cases rule: ServeHTTP_phases[of s r env])
  case (middleware_fail k err)
  with assms show ?thesis by simp
next
  case (connect_fail k err)
  with assms show ?thesis by simp
next
  case connected
  with assms show ?thesis by simp
qed

lemma merged_last_wins:
  fixes get :: "('c, 'n, 'f) GraphqlHandler \<Rightarrow> 'n option \<Rightarrow> 'f Fields"
  assumes perm: "range_permutes env"
    and ok: "\<forall>l<length hs. \<not> isl (CreateConnection (hs ! l) ctx)"
    and j: "j < length hs" "CreateConnection (hs ! j) ctx = Inr c"
    and n: "n \<in> fst ` set (get (hs ! j) c)"
    and last: "\<forall>l c'. j < l \<and> l < length hs \<and> CreateConnection (hs ! l) ctx = Inr c' \<longrightarrow>
                 n \<notin> fst ` set (get (hs ! l) c')"
  shows "map_of (merge_fields env (map (\<lambda>h. get h (projr (CreateConnection h ctx))) hs) []) n =
         map_of (get (hs ! j) c) n"
proof -
  let ?srcs = "map (\<lambda>h. get h (projr (CreateConnection h ctx))) hs"
  have 1: "j < length ?srcs" using j(1) by simp
  have 2: "?srcs ! j = get (hs ! j) c" using j by simp
  have 3: "\<forall>l. j < l \<and> l < length ?srcs \<longrightarrow> n \<notin> fst ` set (?srcs ! l)"
  proof (intro allI impI)
    fix l assume l: "j < l \<and> l < length ?srcs"
    then have "l < length hs" by simp
    with ok obtain c' where c': "CreateConnection (hs ! l) ctx = Inr c'"
      by (cases "CreateConnection (hs ! l) ctx") auto
    with last l have "n \<notin> fst ` set (get (hs ! l) c')" by simp
    with c' \<open>l < length hs\<close> show "n \<notin> fst ` set (?srcs ! l)" by simp
  qed
  from merge_fields_last_wins[OF perm 1 _ 3, of "[]"] n 2 show ?thesis by simp
qed

text \<open>
  C5. When two registered handlers expose a query field, or a mutation field, of the same
  name, the merged map the request-time schema is built from holds the field of the one
  registered later: under every name it holds the field of the last handler that exposes
  the name. And whether \<open>AddHandler\<close> returns an error does not depend on the handlers
  already registered: a name shared with another handler causes no registration error.
\<close>

theorem last_registered_wins:
  fixes env :: "('c, 'f, 's, 'v) env" and s s' :: "('c, 'n, 'f) ServeMux"
  shows
  "(range_permutes env \<and> NewSchemaCall cfg \<in> set (ServeHTTP env s r) \<and>
    CreateConnectionCall j ctx \<in> set (ServeHTTP env s r) \<and>
    CreateConnection (handlers s ! j) ctx = Inr c \<longrightarrow>
      (n \<in> fst ` set (GetQueries (handlers s ! j) c) \<and>
       (\<forall>l c'. j < l \<and> l < length (handlers s) \<and>
                CreateConnection (handlers s ! l) ctx = Inr c' \<longrightarrow>
                  n \<notin> fst ` set (GetQueries (handlers s ! l) c')) \<longrightarrow>
         map_of (config_fields (Query cfg)) n = map_of (GetQueries (handlers s ! j) c) n) \<and>
      (n \<in> fst ` set (GetMutations (handlers s ! j) c) \<and>
       (\<forall>l c'. j < l \<and> l < length (handlers s) \<and>
                CreateConnection (handlers s ! l) ctx = Inr c' \<longrightarrow>
                  n \<notin> fst ` set (GetMutations (handlers s ! l) c')) \<longrightarrow>
         map_of (config_fields (Mutation cfg)) n =
           map_of (GetMutations (handlers s ! j) c) n)) \<and>
   fst (AddHandler env s h) = fst (AddHandler env s' h)"
proof (intro conjI impI)
  show "fst (AddHandler env s h) = fst (AddHandler env s' h)"
    by (simp add: AddHandler_def split: option.splits)
next
  assume a: "range_permutes env \<and> NewSchemaCall cfg \<in> set (ServeHTTP env s r) \<and>
    CreateConnectionCall j ctx \<in> set (ServeHTTP env s r) \<and>
    CreateConnection (handlers s ! j) ctx = Inr c"
  then have perm: "range_permutes env" and sc: "NewSchemaCall cfg \<in> set (ServeHTTP env s r)"
    and cc: "CreateConnectionCall j ctx \<in> set (ServeHTTP env s r)"
    and c: "CreateConnection (handlers s ! j) ctx = Inr c" by blast+
  from connection_call_ctx[OF cc] have ctx: "ctx = final_ctx s r" and j: "j < length (handlers s)"
    by blast+
  from schema_call_config[OF sc] have cfg:
    "cfg = schemaConfig_of (merged_queries env s r) (merged_mutations env s r)"
    and ok: "\<forall>l<length (handlers s). \<not> isl (CreateConnection (handlers s ! l) ctx)"
    unfolding ctx by blast+
  assume q: "n \<in> fst ` set (GetQueries (handlers s ! j) c) \<and>
       (\<forall>l c'. j < l \<and> l < length (handlers s) \<and>
                CreateConnection (handlers s ! l) ctx = Inr c' \<longrightarrow>
                  n \<notin> fst ` set (GetQueries (handlers s ! l) c'))"
  from merged_last_wins[OF perm ok j c conjunct1[OF q] conjunct2[OF q]]
  show "map_of (config_fields (Query cfg)) n = map_of (GetQueries (handlers s ! j) c) n"
    unfolding cfg by (simp add: merged_queries_def ctx)
next
  assume a: "range_permutes env \<and> NewSchemaCall cfg \<in> set (ServeHTTP env s r) \<and>
    CreateConnectionCall j ctx \<in> set (ServeHTTP env s r) \<and>
    CreateConnection (handlers s ! j) ctx = Inr c"
  then have perm: "range_permutes env" and sc: "NewSchemaCall cfg \<in> set (ServeHTTP env s r)"
    and cc: "CreateConnectionCall j ctx \<in> set (ServeHTTP env s r)"
    and c: "CreateConnection (handlers s ! j) ctx = Inr c" by blast+
  from connection_call_ctx[OF cc] have ctx: "ctx = final_ctx s r" and j: "j < length (handlers s)"
    by blast+
  from schema_call_config[OF sc] have cfg:
    "cfg = schemaConfig_of (merged_queries env s r) (merged_mutations env s r)"
    and ok: "\<forall>l<length (handlers s). \<not> isl (CreateConnection (handlers s ! l) ctx)"
    unfolding ctx by blast+
  assume q: "n \<in> fst ` set (GetMutations (handlers s ! j) c) \<and>
       (\<forall>l c'. j < l \<and> l < length (handlers s) \<and>
                CreateConnection (handlers s ! l) ctx = Inr c' \<longrightarrow>
                  n \<notin> fst ` set (GetMutations (handlers s ! l) c'))"
  from merged_last_wins[OF perm ok j c conjunct1[OF q] conjunct2[OF q]]
  show "map_of (config_fields (Mutation cfg)) n = map_of (GetMutations (handlers s ! j) c) n"
    unfolding cfg by (simp add: merged_mutations_def ctx)
qed

lemma ex_env_permutes: "range_permutes ex_env"
  by (simp add: range_permutes_def ex_env_def)

lemma search_trace:
  "ServeHTTP ex_env ex_mux search_request =
   [MiddlewareCall 0 0, CreateConnectionCall 0 1, CreateConnectionCall 1 1,
    NewSchemaCall
      \<lparr>Query = Some \<lparr>Name = ''Query'',
          Fields = [(''hello'', ''search.hello''), (''search'', ''search.search'')]\<rparr>,
       Mutation = Some \<lparr>Name = ''Mutation'', Fields = [(''create'', ''search.create'')]\<rparr>\<rparr>,
    ParseRequestCall, DirectiveCall ''search'' ''auth'' 1,
    DoCall
      \<lparr>Schema =
         \<lparr>Query = Some \<lparr>Name = ''Query'',
             Fields = [(''hello'', ''search.hello''), (''search'', ''search.search'')]\<rparr>,
          Mutation = Some \<lparr>Name = ''Mutation'', Fields = [(''create'', ''search.create'')]\<rparr>\<rparr>,
       RequestString = ''{ search }'', VariableValues = [], Context = 1\<rparr>,
    RespondResultCall \<lparr>Data = Some ''{ search }'', Errors = []\<rparr>,
    HeaderSet ''Content-Type'' ''application/json'',
    HeaderSet ''Content-Length'' ''2'', WriteHeader 200, Write ''{}'',
    CloserCall 1, CloserCall 0]"
  by (simp add: ex_defs run_defs Sprint_2)

theorem last_registered_wins_witness:
  "range_permutes ex_env \<and>
   NewSchemaCall
      \<lparr>Query = Some \<lparr>Name = ''Query'',
          Fields = [(''hello'', ''search.hello''), (''search'', ''search.search'')]\<rparr>,
       Mutation = Some \<lparr>Name = ''Mutation'', Fields = [(''create'', ''search.create'')]\<rparr>\<rparr>
     \<in> set (ServeHTTP ex_env ex_mux search_request) \<and>
   CreateConnectionCall 1 1 \<in> set (ServeHTTP ex_env ex_mux search_request) \<and>
   CreateConnection (handlers ex_mux ! 1) 1 = Inr (Some 2) \<and>
   ''hello'' \<in> fst ` set (GetQueries (handlers ex_mux ! 0) (Some 1)) \<and>
   ''hello'' \<in> fst ` set (GetQueries (handlers ex_mux ! 1) (Some 2)) \<and>
   map_of (config_fields (Query
      \<lparr>Query = Some \<lparr>Name = ''Query'',
          Fields = [(''hello'', ''search.hello''), (''search'', ''search.search'')]\<rparr>,
       Mutation = Some \<lparr>Name = ''Mutation'', Fields = [(''create'', ''search.create'')]\<rparr>\<rparr>))
     ''hello'' = map_of (GetQueries (handlers ex_mux ! 1) (Some 2)) ''hello'' \<and>
   map_of (GetQueries (handlers ex_mux ! 1) (Some 2)) ''hello'' = Some ''search.hello''"
proof -
  let ?cfg = "\<lparr>Query = Some \<lparr>Name = ''Query'',
          Fields = [(''hello'', ''search.hello''), (''search'', ''search.search'')]\<rparr>,
       Mutation = Some \<lparr>Name = ''Mutation'', Fields = [(''create'', ''search.create'')]\<rparr>\<rparr>"
  have sc: "NewSchemaCall ?cfg \<in> set (ServeHTTP ex_env ex_mux search_request)"
    by (simp add: search_trace)
  have cc: "CreateConnectionCall 1 1 \<in> set (ServeHTTP ex_env ex_mux search_request)"
    by (simp add: search_trace)
  have c: "CreateConnection (handlers ex_mux ! 1) 1 = Inr (Some 2)"
    by (simp add: ex_mux_def search_handler_def)
  have n0: "''hello'' \<in> fst ` set (GetQueries (handlers ex_mux ! 0) (Some 1))"
    by (simp add: ex_mux_def hello_handler_def)
  have n1: "''hello'' \<in> fst ` set (GetQueries (handlers ex_mux ! 1) (Some 2))"
    by (simp add: ex_mux_def search_handler_def)
  have last: "\<forall>l c'. 1 < l \<and> l < length (handlers ex_mux) \<and>
                CreateConnection (handlers ex_mux ! l) 1 = Inr c' \<longrightarrow>
                  ''hello'' \<notin> fst ` set (GetQueries (handlers ex_mux ! l) c')"
  proof (intro allI impI)
    fix l :: nat and c'
    assume "1 < l \<and> l < length (handlers ex_mux) \<and>
                CreateConnection (handlers ex_mux ! l) 1 = Inr c'"
    then have "1 < l" "l < 2" by (simp_all add: ex_mux_def)
    then show "''hello'' \<notin> fst ` set (GetQueries (handlers ex_mux ! l) c')" by simp
  qed
  have v: "map_of (GetQueries (handlers ex_mux ! 1) (Some 2)) ''hello'' = Some ''search.hello''"
    by (simp add: ex_mux_def search_handler_def)
  note t = last_registered_wins[where env = ex_env and s = ex_mux and r = search_request
      and cfg = ?cfg and j = 1 and ctx = 1 and c = "Some 2" and n = "''hello''",
      THEN conjunct1, rule_format,
      OF conjI[OF ex_env_permutes conjI[OF sc conjI[OF cc c]]], THEN conjunct1, rule_format,
      OF conjI[OF n1 last]]
  show ?thesis by (intro conjI ex_env_permutes sc cc c n0 n1 t v)
qed

subsection \<open>Directive dispatch\<close>

lemma methodNames_subset:
  "set (methodNames env q m) \<subseteq> fst ` set q \<union> fst ` set m"
  using range_map_keys_subset[of env q] range_map_keys_subset[of env m]
  by (auto simp: methodNames_def)





lemma is_directive_callD: "is_directive_call m d e \<Longrightarrow> \<exists>c. e = DirectiveCall m d c"
  by (cases e) auto

lemma filter_directive_others [simp]:
  "filter (is_directive_call m d) (middleware_calls s r k) = []"
  "filter (is_directive_call m d) (connection_calls s r k) = []"
  "filter (is_directive_call m d) (closer_calls k) = []"
  "filter (is_directive_call m d) (respondResult env result) = []"
  by (rule filter_none; auto dest!: is_directive_callD)+









end
